theory Spec2Isabelle
  imports Main "HOL-Library.Word" "HOL-Library.Sublist"
begin

section \<open>The tracked-object list of a page (src/btree/rec_track.c)\<close>

subsection \<open>Data model\<close>

text \<open>
  The kind of a tracked object, the enum \<open>__wt_pt_type_t\<close>. The source's \<open>switch\<close> in
  \<open>__wt_rec_discard_track\<close> names exactly these four values.
\<close>

datatype pt_type = WT_PT_EMPTY | WT_PT_BLOCK | WT_PT_OVFL | WT_PT_OVFL_DISCARD

text \<open>
  A reference is a \<open>const void *\<close> that is only ever compared, never dereferenced: an
  address, with \<open>NULL\<close> the address 0. Addresses and sizes of blocks are \<open>uint32_t\<close>.
  Return codes are C \<open>int\<close>s, 0 meaning success.
\<close>

type_synonym ptr = nat
type_synonym u32 = "32 word"

definition NULL :: ptr where
  "NULL = 0"

text \<open>
  \<open>WT_PAGE_TRACK\<close>: one slot of the list, with the fields \<open>type\<close>, \<open>ref\<close>, \<open>addr\<close> and
  \<open>size\<close> of the source (prefixed here, \<open>size\<close> being a constant of HOL). Two slots are
  equal exactly when their four fields are.
\<close>

record WT_PAGE_TRACK =
  pt_type :: pt_type
  pt_ref :: ptr
  pt_addr :: u32
  pt_size :: u32

text \<open>
  \<open>WT_PAGE_MODIFY\<close>, as far as this file reads it: \<open>track\<close> holds the slots in use,
  \<open>mod->track[0 .. track_next - 1]\<close>, in order, so that \<open>track_next\<close> is its length;
  \<open>track_entries\<close> is the number of slots allocated. The slots allocated beyond
  \<open>track_next\<close> are never read by any function of the file (each is written by
  \<open>__wt_rec_track\<close> before \<open>track_next\<close> passes it), so they are not part of the model.
  The counters are \<open>uint32_t\<close> in the source; a list of \<open>2 ^ 32\<close> slots is not considered.
\<close>

record WT_PAGE_MODIFY =
  track :: "WT_PAGE_TRACK list"
  track_entries :: nat

abbreviation track_next :: "WT_PAGE_MODIFY \<Rightarrow> nat" where
  "track_next m \<equiv> length (track m)"

subsection \<open>Failures\<close>

text \<open>
  Modelled from the spec: the macro \<open>WT_ASSERT\<close> is not part of the source file. The
  spec calls a failed assertion of \<open>__wt_rec_track_ovfl_active\<close> a fatal, unrecoverable
  invariant violation, so a failed assertion ends the run with \<open>InvariantViolation\<close>
  instead of a return value.
\<close>

datatype error = InvariantViolation

definition WT_ASSERT :: "bool \<Rightarrow> error + unit" where
  "WT_ASSERT e = (if e then Inr () else Inl InvariantViolation)"

text \<open>
  Modelled from the spec: the macro \<open>WT_RET\<close> is not part of the source file either. The
  spec has a failed allocation abandon the registration and a failed free abort the
  resolve at once, each handing the error to the caller: \<open>WT_RET\<close> of a call returns the
  call's code from the enclosing function when the code is not 0, and goes on otherwise.
  \<open>WT_RET ret\<close> says that the macro returns.
\<close>

definition WT_RET :: "int \<Rightarrow> bool" where
  "WT_RET ret = (ret \<noteq> 0)"

subsection \<open>\<open>__wt_rec_track\<close>: add an addr/size pair to the list\<close>

text \<open>The duplicate check, the \<open>for\<close> loop of lines 45 to 48.\<close>

fun track_dup :: "WT_PAGE_TRACK list \<Rightarrow> pt_type \<Rightarrow> ptr \<Rightarrow> u32 \<Rightarrow> u32 \<Rightarrow> bool" where
  "track_dup [] ty r a sz = False"
| "track_dup (t # ts) ty r a sz =
     (if pt_type t = ty \<and> pt_ref t = r \<and> pt_addr t = a \<and> pt_size t = sz then True
      else track_dup ts ty r a sz)"

text \<open>
  \<open>__wt_realloc\<close> belongs to the session layer and is a parameter: from the session
  state and the number of slots asked for it gives a return code and the next session
  state. On success the array has 20 more slots; on failure the list is as it was.
\<close>

definition wt_rec_track ::
  "('s \<Rightarrow> nat \<Rightarrow> int \<times> 's) \<Rightarrow> 's \<Rightarrow> WT_PAGE_MODIFY \<Rightarrow> pt_type \<Rightarrow> ptr \<Rightarrow> u32 \<Rightarrow> u32
    \<Rightarrow> int \<times> 's \<times> WT_PAGE_MODIFY" where
  "wt_rec_track realloc s m ty r a sz =
     (if track_dup (track m) ty r a sz then (0, s, m)
      else
        let new = \<lparr>pt_type = ty, pt_ref = r, pt_addr = a, pt_size = sz\<rparr> in
        if track_next m = track_entries m then
          (case realloc s (track_entries m + 20) of
             (rc, s') \<Rightarrow>
               if WT_RET rc then (rc, s', m)
               else (0, s', m\<lparr>track := track m @ [new],
                                track_entries := track_entries m + 20\<rparr>))
        else (0, s, m\<lparr>track := track m @ [new]\<rparr>))"

subsection \<open>\<open>__wt_rec_track_ovfl_active\<close>: search for an overflow record and reactivate it\<close>

text \<open>
  The loop of lines 132 to 150 over the slots in use. It gives the slots after the scan
  and, when a slot matched, the addr/size pair handed back to the caller.
\<close>

fun ovfl_active_scan ::
  "WT_PAGE_TRACK list \<Rightarrow> ptr \<Rightarrow> error + (WT_PAGE_TRACK list \<times> (u32 \<times> u32) option)" where
  "ovfl_active_scan [] orig_data = Inr ([], None)"
| "ovfl_active_scan (t # ts) orig_data =
     (if pt_ref t \<noteq> orig_data then
        (case ovfl_active_scan ts orig_data of
           Inl e \<Rightarrow> Inl e
         | Inr (ts', res) \<Rightarrow> Inr (t # ts', res))
      else
        (case WT_ASSERT (pt_type t = WT_PT_OVFL_DISCARD) of
           Inl e \<Rightarrow> Inl e
         | Inr _ \<Rightarrow> Inr (t\<lparr>pt_type := WT_PT_OVFL\<rparr> # ts, Some (pt_addr t, pt_size t))))"

text \<open>
  The function itself. \<open>addrp\<close> and \<open>sizep\<close> are the values the caller's two output
  locations hold before the call; the result has the return code (1 found, 0 not
  found), the list, and the values the two locations hold after the call.
\<close>

definition wt_rec_track_ovfl_active ::
  "WT_PAGE_MODIFY \<Rightarrow> ptr \<Rightarrow> u32 \<Rightarrow> u32 \<Rightarrow> error + (int \<times> WT_PAGE_MODIFY \<times> u32 \<times> u32)" where
  "wt_rec_track_ovfl_active m orig_data addrp sizep =
     (if orig_data = NULL then Inr (0, m, addrp, sizep)
      else
        (case ovfl_active_scan (track m) orig_data of
           Inl e \<Rightarrow> Inl e
         | Inr (ts', None) \<Rightarrow> Inr (0, m\<lparr>track := ts'\<rparr>, addrp, sizep)
         | Inr (ts', Some (a, sz)) \<Rightarrow> Inr (1, m\<lparr>track := ts'\<rparr>, a, sz)))"

subsection \<open>\<open>__wt_rec_track_ovfl_reset\<close>: clean up each time a page is written\<close>

fun ovfl_reset_scan :: "WT_PAGE_TRACK list \<Rightarrow> WT_PAGE_TRACK list" where
  "ovfl_reset_scan [] = []"
| "ovfl_reset_scan (t # ts) =
     (if pt_type t = WT_PT_OVFL then t\<lparr>pt_type := WT_PT_OVFL_DISCARD\<rparr> # ovfl_reset_scan ts
      else t # ovfl_reset_scan ts)"

definition wt_rec_track_ovfl_reset :: "WT_PAGE_MODIFY \<Rightarrow> WT_PAGE_MODIFY" where
  "wt_rec_track_ovfl_reset m = m\<lparr>track := ovfl_reset_scan (track m)\<rparr>"

subsection \<open>\<open>__wt_rec_discard_track\<close>: resolve the list\<close>

text \<open>
  \<open>__wt_block_free\<close> belongs to the block manager and is a parameter \<open>block_free\<close>: from
  the session state, an address and a size it gives a return code and the next session
  state. The constant \<open>WT_ADDR_INVALID\<close> is declared outside the source file and is the
  parameter \<open>addr_invalid\<close>. A slot that has been freed is left as \<open>empty_slot\<close>.
\<close>

definition empty_slot :: "u32 \<Rightarrow> WT_PAGE_TRACK" where
  "empty_slot addr_invalid =
     \<lparr>pt_type = WT_PT_EMPTY, pt_ref = NULL, pt_addr = addr_invalid, pt_size = 0\<rparr>"

text \<open>
  The \<open>switch\<close> of lines 193 to 211, in the order of the source: \<open>True\<close> where the case
  ends in \<open>break\<close> and control reaches the call of \<open>__wt_block_free\<close>, \<open>False\<close> where
  it ends in \<open>continue\<close>.
\<close>

fun discard_frees :: "pt_type \<Rightarrow> bool" where
  "discard_frees WT_PT_EMPTY = False"
| "discard_frees WT_PT_BLOCK = True"
| "discard_frees WT_PT_OVFL_DISCARD = True"
| "discard_frees WT_PT_OVFL = False"

fun discard_scan ::
  "u32 \<Rightarrow> ('s \<Rightarrow> u32 \<Rightarrow> u32 \<Rightarrow> int \<times> 's) \<Rightarrow> 's \<Rightarrow> WT_PAGE_TRACK list
    \<Rightarrow> int \<times> 's \<times> WT_PAGE_TRACK list" where
  "discard_scan addr_invalid block_free s [] = (0, s, [])"
| "discard_scan addr_invalid block_free s (t # ts) =
     (if \<not> discard_frees (pt_type t) then
        (case discard_scan addr_invalid block_free s ts of
           (rc, s', ts') \<Rightarrow> (rc, s', t # ts'))
      else
        (case block_free s (pt_addr t) (pt_size t) of
           (rc, s1) \<Rightarrow>
             if WT_RET rc then (rc, s1, t # ts)
             else
               (case discard_scan addr_invalid block_free s1 ts of
                  (rc', s', ts') \<Rightarrow> (rc', s', empty_slot addr_invalid # ts'))))"

definition wt_rec_discard_track ::
  "u32 \<Rightarrow> ('s \<Rightarrow> u32 \<Rightarrow> u32 \<Rightarrow> int \<times> 's) \<Rightarrow> 's \<Rightarrow> WT_PAGE_MODIFY
    \<Rightarrow> int \<times> 's \<times> WT_PAGE_MODIFY" where
  "wt_rec_discard_track addr_invalid block_free s m =
     (case discard_scan addr_invalid block_free s (track m) of
        (rc, s', ts') \<Rightarrow> (rc, s', m\<lparr>track := ts'\<rparr>))"

subsection \<open>Observing the calls of the block manager\<close>

text \<open>
  To say which blocks a resolve frees, any block manager is run with a call log beside
  its state: each call of \<open>block_free\<close> appends its address, its size and the code it
  returned. The wrapped block manager returns what the bare one returns.
\<close>

definition logged ::
  "('s \<Rightarrow> u32 \<Rightarrow> u32 \<Rightarrow> int \<times> 's)
    \<Rightarrow> (u32 \<times> u32 \<times> int) list \<times> 's \<Rightarrow> u32 \<Rightarrow> u32 \<Rightarrow> int \<times> ((u32 \<times> u32 \<times> int) list \<times> 's)" where
  "logged block_free st a sz =
     (case block_free (snd st) a sz of
        (rc, s') \<Rightarrow> (rc, (fst st @ [(a, sz, rc)], s')))"

text \<open>
  Vocabulary for the statements about a resolve: \<open>freeable\<close> holds of the slots whose
  case of the \<open>switch\<close> reaches \<open>__wt_block_free\<close>; \<open>resolved\<close> is what a completed
  resolve leaves of a slot; \<open>freed\<close> is the log entry of a successful call for a slot;
  \<open>block_of\<close> and \<open>call_block\<close> are the addr/size pair of a slot and of a log entry.
\<close>

definition freeable :: "WT_PAGE_TRACK \<Rightarrow> bool" where
  "freeable t = discard_frees (pt_type t)"

definition resolved :: "u32 \<Rightarrow> WT_PAGE_TRACK \<Rightarrow> WT_PAGE_TRACK" where
  "resolved addr_invalid t = (if freeable t then empty_slot addr_invalid else t)"

definition freed :: "WT_PAGE_TRACK \<Rightarrow> u32 \<times> u32 \<times> int" where
  "freed t = (pt_addr t, pt_size t, 0)"

definition block_of :: "WT_PAGE_TRACK \<Rightarrow> u32 \<times> u32" where
  "block_of t = (pt_addr t, pt_size t)"

definition call_block :: "u32 \<times> u32 \<times> int \<Rightarrow> u32 \<times> u32" where
  "call_block c = (fst c, fst (snd c))"

subsection \<open>Sequences of calls\<close>

text \<open>\<open>__wt_rec_track\<close> called \<open>n\<close> times with the same arguments; the return codes in order.\<close>

fun track_times ::
  "('s \<Rightarrow> nat \<Rightarrow> int \<times> 's) \<Rightarrow> 's \<Rightarrow> WT_PAGE_MODIFY \<Rightarrow> pt_type \<Rightarrow> ptr \<Rightarrow> u32 \<Rightarrow> u32 \<Rightarrow> nat
    \<Rightarrow> int list \<times> 's \<times> WT_PAGE_MODIFY" where
  "track_times realloc s m ty r a sz 0 = ([], s, m)"
| "track_times realloc s m ty r a sz (Suc n) =
     (case wt_rec_track realloc s m ty r a sz of
        (rc, s1, m1) \<Rightarrow>
          (case track_times realloc s1 m1 ty r a sz n of
             (rcs, s', m') \<Rightarrow> (rc # rcs, s', m')))"

text \<open>
  A caller of the four functions: one constructor for each, with the arguments the caller
  chooses. \<open>step\<close> makes one call on the session state and the list and drops the return
  code and the output locations; a failed assertion ends the run. \<open>run\<close> makes the calls
  of a list in order.
\<close>

datatype rec_op =
  Rec_Track pt_type ptr u32 u32
| Rec_Track_Ovfl_Reset
| Rec_Track_Ovfl_Active ptr
| Rec_Discard_Track

fun step ::
  "('s \<Rightarrow> nat \<Rightarrow> int \<times> 's) \<Rightarrow> ('s \<Rightarrow> u32 \<Rightarrow> u32 \<Rightarrow> int \<times> 's) \<Rightarrow> u32
    \<Rightarrow> 's \<times> WT_PAGE_MODIFY \<Rightarrow> rec_op \<Rightarrow> error + ('s \<times> WT_PAGE_MODIFY)" where
  "step realloc block_free addr_invalid (s, m) (Rec_Track ty r a sz) =
     (case wt_rec_track realloc s m ty r a sz of (rc, s', m') \<Rightarrow> Inr (s', m'))"
| "step realloc block_free addr_invalid (s, m) Rec_Track_Ovfl_Reset =
     Inr (s, wt_rec_track_ovfl_reset m)"
| "step realloc block_free addr_invalid (s, m) (Rec_Track_Ovfl_Active r) =
     (case wt_rec_track_ovfl_active m r 0 0 of
        Inl e \<Rightarrow> Inl e
      | Inr (rc, m', a, sz) \<Rightarrow> Inr (s, m'))"
| "step realloc block_free addr_invalid (s, m) Rec_Discard_Track =
     (case wt_rec_discard_track addr_invalid block_free s m of (rc, s', m') \<Rightarrow> Inr (s', m'))"

fun run ::
  "('s \<Rightarrow> nat \<Rightarrow> int \<times> 's) \<Rightarrow> ('s \<Rightarrow> u32 \<Rightarrow> u32 \<Rightarrow> int \<times> 's) \<Rightarrow> u32
    \<Rightarrow> 's \<times> WT_PAGE_MODIFY \<Rightarrow> rec_op list \<Rightarrow> error + ('s \<times> WT_PAGE_MODIFY)" where
  "run realloc block_free addr_invalid st [] = Inr st"
| "run realloc block_free addr_invalid st (op # ops) =
     (case step realloc block_free addr_invalid st op of
        Inl e \<Rightarrow> Inl e
      | Inr st' \<Rightarrow> run realloc block_free addr_invalid st' ops)"

text \<open>The list of a page that has tracked nothing yet: no slot in use, none allocated.\<close>

definition no_track :: WT_PAGE_MODIFY where
  "no_track = \<lparr>track = [], track_entries = 0\<rparr>"

subsection \<open>The dedup invariant\<close>

text \<open>
  I1 as the spec words it: no two slots hold the same (kind, reference, addr, size).
  \<open>I1_in_use\<close> is I1 among the slots that are not Empty.
\<close>

definition I1 :: "WT_PAGE_TRACK list \<Rightarrow> bool" where
  "I1 ts = distinct ts"

definition in_use :: "WT_PAGE_TRACK list \<Rightarrow> WT_PAGE_TRACK list" where
  "in_use ts = filter (\<lambda>t. pt_type t \<noteq> WT_PT_EMPTY) ts"

definition I1_in_use :: "WT_PAGE_TRACK list \<Rightarrow> bool" where
  "I1_in_use ts = distinct (in_use ts)"

text \<open>
  The twin of an overflow tuple is the same reference, addr and size in the other overflow
  state. \<open>twin_tracked\<close> says that the twin of the tuple is in the list; \<open>twin_free\<close> says
  of a sequence of calls that no \<open>__wt_rec_track\<close> of it registers a tuple whose twin is
  in the list at that moment.
\<close>

fun twin_tracked :: "WT_PAGE_TRACK list \<Rightarrow> pt_type \<Rightarrow> ptr \<Rightarrow> u32 \<Rightarrow> u32 \<Rightarrow> bool" where
  "twin_tracked ts WT_PT_OVFL r a sz = track_dup ts WT_PT_OVFL_DISCARD r a sz"
| "twin_tracked ts WT_PT_OVFL_DISCARD r a sz = track_dup ts WT_PT_OVFL r a sz"
| "twin_tracked ts ty r a sz = False"

fun twin_free_op :: "WT_PAGE_TRACK list \<Rightarrow> rec_op \<Rightarrow> bool" where
  "twin_free_op ts (Rec_Track ty r a sz) = (\<not> twin_tracked ts ty r a sz)"
| "twin_free_op ts op = True"

fun twin_free ::
  "('s \<Rightarrow> nat \<Rightarrow> int \<times> 's) \<Rightarrow> ('s \<Rightarrow> u32 \<Rightarrow> u32 \<Rightarrow> int \<times> 's) \<Rightarrow> u32
    \<Rightarrow> 's \<times> WT_PAGE_MODIFY \<Rightarrow> rec_op list \<Rightarrow> bool" where
  "twin_free realloc block_free addr_invalid st [] = True"
| "twin_free realloc block_free addr_invalid st (op # ops) =
     (twin_free_op (track (snd st)) op \<and>
      (case step realloc block_free addr_invalid st op of
         Inl e \<Rightarrow> True
       | Inr st' \<Rightarrow> twin_free realloc block_free addr_invalid st' ops))"

text \<open>
  A slot with its overflow state forgotten, and the invariant that carries the
  induction over a run: no two slots in use are equal up to their overflow state.
\<close>

definition ovfl_norm :: "WT_PAGE_TRACK \<Rightarrow> WT_PAGE_TRACK" where
  "ovfl_norm t = (if pt_type t = WT_PT_OVFL_DISCARD then t\<lparr>pt_type := WT_PT_OVFL\<rparr> else t)"

definition I1_ovfl :: "WT_PAGE_TRACK list \<Rightarrow> bool" where
  "I1_ovfl ts = distinct (map ovfl_norm (in_use ts))"

subsection \<open>Example collaborators and lists\<close>

text \<open>
  A session whose allocations succeed, a block manager whose calls succeed, and a block
  manager that counts its calls and fails call number \<open>k\<close> (counted from 0) with code 5.
\<close>

definition realloc_ok :: "unit \<Rightarrow> nat \<Rightarrow> int \<times> unit" where
  "realloc_ok s n = (0, s)"

definition free_ok :: "unit \<Rightarrow> u32 \<Rightarrow> u32 \<Rightarrow> int \<times> unit" where
  "free_ok s a sz = (0, s)"

definition free_failing_at :: "nat \<Rightarrow> nat \<Rightarrow> u32 \<Rightarrow> u32 \<Rightarrow> int \<times> nat" where
  "free_failing_at k n a sz = (if n = k then 5 else 0, Suc n)"

definition four_kinds :: WT_PAGE_MODIFY where
  "four_kinds =
     \<lparr>track =
        [\<lparr>pt_type = WT_PT_EMPTY, pt_ref = NULL, pt_addr = 0, pt_size = 0\<rparr>,
         \<lparr>pt_type = WT_PT_BLOCK, pt_ref = NULL, pt_addr = 1, pt_size = 10\<rparr>,
         \<lparr>pt_type = WT_PT_OVFL, pt_ref = 7, pt_addr = 100, pt_size = 10\<rparr>,
         \<lparr>pt_type = WT_PT_OVFL_DISCARD, pt_ref = 8, pt_addr = 200, pt_size = 20\<rparr>],
      track_entries = 20\<rparr>"

definition four_kinds_resolved :: WT_PAGE_MODIFY where
  "four_kinds_resolved =
     \<lparr>track =
        [\<lparr>pt_type = WT_PT_EMPTY, pt_ref = NULL, pt_addr = 0, pt_size = 0\<rparr>,
         \<lparr>pt_type = WT_PT_EMPTY, pt_ref = NULL, pt_addr = - 1, pt_size = 0\<rparr>,
         \<lparr>pt_type = WT_PT_OVFL, pt_ref = 7, pt_addr = 100, pt_size = 10\<rparr>,
         \<lparr>pt_type = WT_PT_EMPTY, pt_ref = NULL, pt_addr = - 1, pt_size = 0\<rparr>],
      track_entries = 20\<rparr>"

definition one_block :: WT_PAGE_MODIFY where
  "one_block =
     \<lparr>track = [\<lparr>pt_type = WT_PT_BLOCK, pt_ref = NULL, pt_addr = 100, pt_size = 10\<rparr>],
      track_entries = 20\<rparr>"

definition five_blocks :: WT_PAGE_MODIFY where
  "five_blocks =
     \<lparr>track =
        [\<lparr>pt_type = WT_PT_BLOCK, pt_ref = NULL, pt_addr = 1, pt_size = 10\<rparr>,
         \<lparr>pt_type = WT_PT_BLOCK, pt_ref = NULL, pt_addr = 2, pt_size = 10\<rparr>,
         \<lparr>pt_type = WT_PT_BLOCK, pt_ref = NULL, pt_addr = 3, pt_size = 10\<rparr>,
         \<lparr>pt_type = WT_PT_BLOCK, pt_ref = NULL, pt_addr = 4, pt_size = 10\<rparr>,
         \<lparr>pt_type = WT_PT_BLOCK, pt_ref = NULL, pt_addr = 5, pt_size = 10\<rparr>],
      track_entries = 20\<rparr>"

definition five_blocks_stopped :: WT_PAGE_MODIFY where
  "five_blocks_stopped =
     \<lparr>track =
        [\<lparr>pt_type = WT_PT_EMPTY, pt_ref = NULL, pt_addr = - 1, pt_size = 0\<rparr>,
         \<lparr>pt_type = WT_PT_EMPTY, pt_ref = NULL, pt_addr = - 1, pt_size = 0\<rparr>,
         \<lparr>pt_type = WT_PT_BLOCK, pt_ref = NULL, pt_addr = 3, pt_size = 10\<rparr>,
         \<lparr>pt_type = WT_PT_BLOCK, pt_ref = NULL, pt_addr = 4, pt_size = 10\<rparr>,
         \<lparr>pt_type = WT_PT_BLOCK, pt_ref = NULL, pt_addr = 5, pt_size = 10\<rparr>],
      track_entries = 20\<rparr>"

definition block_and_active :: WT_PAGE_MODIFY where
  "block_and_active =
     \<lparr>track =
        [\<lparr>pt_type = WT_PT_BLOCK, pt_ref = NULL, pt_addr = 100, pt_size = 10\<rparr>,
         \<lparr>pt_type = WT_PT_OVFL, pt_ref = 7, pt_addr = 200, pt_size = 20\<rparr>],
      track_entries = 20\<rparr>"

definition block_swept :: WT_PAGE_MODIFY where
  "block_swept =
     \<lparr>track =
        [\<lparr>pt_type = WT_PT_EMPTY, pt_ref = NULL, pt_addr = - 1, pt_size = 0\<rparr>,
         \<lparr>pt_type = WT_PT_OVFL, pt_ref = 7, pt_addr = 200, pt_size = 20\<rparr>],
      track_entries = 20\<rparr>"

definition round_trip :: WT_PAGE_MODIFY where
  "round_trip =
     \<lparr>track =
        [\<lparr>pt_type = WT_PT_BLOCK, pt_ref = NULL, pt_addr = 1, pt_size = 10\<rparr>,
         \<lparr>pt_type = WT_PT_OVFL, pt_ref = 7, pt_addr = 100, pt_size = 10\<rparr>,
         \<lparr>pt_type = WT_PT_OVFL, pt_ref = 7, pt_addr = 300, pt_size = 30\<rparr>],
      track_entries = 20\<rparr>"


text \<open>
  A session whose allocations fail with code 12, and lists for the cases in which a
  claim does not hold as worded.
\<close>

definition realloc_failing :: "unit \<Rightarrow> nat \<Rightarrow> int \<times> unit" where
  "realloc_failing s n = (12, s)"

definition two_discarded :: WT_PAGE_MODIFY where
  "two_discarded =
     \<lparr>track =
        [\<lparr>pt_type = WT_PT_OVFL_DISCARD, pt_ref = 7, pt_addr = 100, pt_size = 10\<rparr>,
         \<lparr>pt_type = WT_PT_OVFL_DISCARD, pt_ref = 7, pt_addr = 100, pt_size = 10\<rparr>],
      track_entries = 20\<rparr>"

definition round_trip_swapped :: WT_PAGE_MODIFY where
  "round_trip_swapped =
     \<lparr>track =
        [\<lparr>pt_type = WT_PT_BLOCK, pt_ref = NULL, pt_addr = 1, pt_size = 10\<rparr>,
         \<lparr>pt_type = WT_PT_OVFL, pt_ref = 7, pt_addr = 300, pt_size = 30\<rparr>,
         \<lparr>pt_type = WT_PT_OVFL, pt_ref = 7, pt_addr = 100, pt_size = 10\<rparr>],
      track_entries = 20\<rparr>"

definition swapped_reactivated :: WT_PAGE_MODIFY where
  "swapped_reactivated =
     \<lparr>track =
        [\<lparr>pt_type = WT_PT_BLOCK, pt_ref = NULL, pt_addr = 1, pt_size = 10\<rparr>,
         \<lparr>pt_type = WT_PT_OVFL, pt_ref = 7, pt_addr = 300, pt_size = 30\<rparr>,
         \<lparr>pt_type = WT_PT_OVFL_DISCARD, pt_ref = 7, pt_addr = 100, pt_size = 10\<rparr>],
      track_entries = 20\<rparr>"

definition swapped_resolved :: WT_PAGE_MODIFY where
  "swapped_resolved =
     \<lparr>track =
        [\<lparr>pt_type = WT_PT_EMPTY, pt_ref = NULL, pt_addr = - 1, pt_size = 0\<rparr>,
         \<lparr>pt_type = WT_PT_OVFL, pt_ref = 7, pt_addr = 300, pt_size = 30\<rparr>,
         \<lparr>pt_type = WT_PT_EMPTY, pt_ref = NULL, pt_addr = - 1, pt_size = 0\<rparr>],
      track_entries = 20\<rparr>"

definition null_ref_active :: WT_PAGE_MODIFY where
  "null_ref_active =
     \<lparr>track = [\<lparr>pt_type = WT_PT_OVFL, pt_ref = NULL, pt_addr = 100, pt_size = 10\<rparr>],
      track_entries = 20\<rparr>"

definition null_ref_discarded :: WT_PAGE_MODIFY where
  "null_ref_discarded =
     \<lparr>track = [\<lparr>pt_type = WT_PT_OVFL_DISCARD, pt_ref = NULL, pt_addr = 100, pt_size = 10\<rparr>],
      track_entries = 20\<rparr>"

definition shared_block :: WT_PAGE_MODIFY where
  "shared_block =
     \<lparr>track =
        [\<lparr>pt_type = WT_PT_OVFL, pt_ref = 7, pt_addr = 100, pt_size = 10\<rparr>,
         \<lparr>pt_type = WT_PT_BLOCK, pt_ref = NULL, pt_addr = 100, pt_size = 10\<rparr>],
      track_entries = 20\<rparr>"

definition shared_block_resolved :: WT_PAGE_MODIFY where
  "shared_block_resolved =
     \<lparr>track =
        [\<lparr>pt_type = WT_PT_OVFL, pt_ref = 7, pt_addr = 100, pt_size = 10\<rparr>,
         \<lparr>pt_type = WT_PT_EMPTY, pt_ref = NULL, pt_addr = - 1, pt_size = 0\<rparr>],
      track_entries = 20\<rparr>"

definition discarded_only :: WT_PAGE_MODIFY where
  "discarded_only =
     \<lparr>track = [\<lparr>pt_type = WT_PT_OVFL_DISCARD, pt_ref = 8, pt_addr = 200, pt_size = 20\<rparr>],
      track_entries = 20\<rparr>"

definition discarded_then_block :: WT_PAGE_MODIFY where
  "discarded_then_block =
     \<lparr>track =
        [\<lparr>pt_type = WT_PT_OVFL_DISCARD, pt_ref = 8, pt_addr = 200, pt_size = 20\<rparr>,
         \<lparr>pt_type = WT_PT_BLOCK, pt_ref = NULL, pt_addr = 100, pt_size = 10\<rparr>],
      track_entries = 20\<rparr>"

section \<open>Properties\<close>

subsection \<open>The resolve loop\<close>

declare WT_RET_def [simp]

lemma logged_apply:
  "logged bf (lg, s) a sz = (case bf s a sz of (rc, s') \<Rightarrow> (rc, (lg @ [(a, sz, rc)], s')))"
  by (simp add: logged_def)

lemma freeable_iff:
  "freeable t \<longleftrightarrow> pt_type t = WT_PT_BLOCK \<or> pt_type t = WT_PT_OVFL_DISCARD"
  by (cases "pt_type t") (simp_all add: freeable_def)

lemma resolved_not_freeable: "\<not> freeable (resolved ai t)"
  by (simp add: resolved_def freeable_def empty_slot_def)

lemma call_block_freed [simp]: "call_block (freed t) = block_of t"
  by (simp add: call_block_def freed_def block_of_def)

lemma discard_scan_keep:
  "\<not> freeable t \<Longrightarrow>
   discard_scan ai bf s (t # ts) =
     (case discard_scan ai bf s ts of (rc, s', ts') \<Rightarrow> (rc, s', t # ts'))"
  by (simp add: freeable_def)

lemma discard_scan_free_fail:
  "freeable t \<Longrightarrow> bf s (pt_addr t) (pt_size t) = (rc, s1) \<Longrightarrow> rc \<noteq> 0 \<Longrightarrow>
   discard_scan ai bf s (t # ts) = (rc, s1, t # ts)"
  by (simp add: freeable_def)

lemma discard_scan_free_ok:
  "freeable t \<Longrightarrow> bf s (pt_addr t) (pt_size t) = (0, s1) \<Longrightarrow>
   discard_scan ai bf s (t # ts) =
     (case discard_scan ai bf s1 ts of (rc, s', ts') \<Rightarrow> (rc, s', empty_slot ai # ts'))"
  by (simp add: freeable_def)

declare discard_scan.simps(2) [simp del]

text \<open>A resolve that returns 0 has freed every freeable slot, in order, and reset it.\<close>

lemma discard_scan_logged_ok:
  "discard_scan ai (logged bf) (lg, s) ts = (0, (lg', s'), ts') \<Longrightarrow>
     ts' = map (resolved ai) ts \<and> lg' = lg @ map freed (filter freeable ts)"
proof (induction ts arbitrary: lg s lg' s' ts')
  case Nil
  then show ?case by simp
next
  case (Cons t ts)
  show ?case
  proof (cases "freeable t")
    case False
    with Cons.prems obtain ts1 where
      *: "discard_scan ai (logged bf) (lg, s) ts = (0, (lg', s'), ts1)" "ts' = t # ts1"
      by (auto simp: discard_scan_keep split: prod.splits)
    from Cons.IH[OF *(1)] *(2) False show ?thesis by (simp add: resolved_def)
  next
    case True
    obtain rc s1 where bf: "bf s (pt_addr t) (pt_size t) = (rc, s1)"
      by (cases "bf s (pt_addr t) (pt_size t)")
    then have lbf: "logged bf (lg, s) (pt_addr t) (pt_size t) =
        (rc, (lg @ [(pt_addr t, pt_size t, rc)], s1))"
      by (simp add: logged_apply)
    have rc: "rc = 0"
    proof (rule ccontr)
      assume "rc \<noteq> 0"
      from discard_scan_free_fail[where bf="logged bf" and s="(lg, s)", OF True lbf this]
        Cons.prems
      show False using \<open>rc \<noteq> 0\<close> by simp
    qed
    with Cons.prems
      discard_scan_free_ok[where bf="logged bf" and s="(lg, s)", OF True lbf[unfolded rc]]
    obtain ts1 where
      *: "discard_scan ai (logged bf) (lg @ [freed t], s1) ts = (0, (lg', s'), ts1)"
      "ts' = empty_slot ai # ts1"
      by (auto simp: freed_def split: prod.splits)
    from Cons.IH[OF *(1)] *(2) True show ?thesis by (simp add: resolved_def)
  qed
qed

text \<open>
  A resolve that returns an error stopped at a freeable slot \<open>k\<close>: the slots before it
  are resolved, the others are as they were, and the last call logged is the failing one.
\<close>

lemma discard_scan_logged_fail:
  "discard_scan ai (logged bf) (lg, s) ts = (rc, (lg', s'), ts') \<Longrightarrow> rc \<noteq> 0 \<Longrightarrow>
     \<exists>k<length ts. freeable (ts ! k) \<and>
        ts' = map (resolved ai) (take k ts) @ drop k ts \<and>
        lg' = lg @ map freed (filter freeable (take k ts)) @
                [(pt_addr (ts ! k), pt_size (ts ! k), rc)]"
proof (induction ts arbitrary: lg s lg' s' ts')
  case Nil
  then show ?case by simp
next
  case (Cons t ts)
  show ?case
  proof (cases "freeable t")
    case False
    with Cons.prems obtain ts1 where
      *: "discard_scan ai (logged bf) (lg, s) ts = (rc, (lg', s'), ts1)" "ts' = t # ts1"
      by (auto simp: discard_scan_keep split: prod.splits)
    from Cons.IH[OF *(1) Cons.prems(2)] obtain k where
      k: "k < length ts" "freeable (ts ! k)"
      "ts1 = map (resolved ai) (take k ts) @ drop k ts"
      "lg' = lg @ map freed (filter freeable (take k ts)) @
               [(pt_addr (ts ! k), pt_size (ts ! k), rc)]"
      by blast
    show ?thesis
      using k False *(2) by (intro exI[of _ "Suc k"]) (simp add: resolved_def)
  next
    case True
    obtain rc1 s1 where bf: "bf s (pt_addr t) (pt_size t) = (rc1, s1)"
      by (cases "bf s (pt_addr t) (pt_size t)")
    then have lbf: "logged bf (lg, s) (pt_addr t) (pt_size t) =
        (rc1, (lg @ [(pt_addr t, pt_size t, rc1)], s1))"
      by (simp add: logged_apply)
    show ?thesis
    proof (cases "rc1 = 0")
      case False
      from discard_scan_free_fail[where bf="logged bf" and s="(lg, s)", OF True lbf False]
        Cons.prems
      have "rc = rc1" "ts' = t # ts" "lg' = lg @ [(pt_addr t, pt_size t, rc)]"
        by auto
      then show ?thesis using True
        by (intro exI[of _ 0]) simp
    next
      case rc0: True
      with Cons.prems
        discard_scan_free_ok[where bf="logged bf" and s="(lg, s)", OF True lbf[unfolded rc0]]
      obtain ts1 where
        *: "discard_scan ai (logged bf) (lg @ [freed t], s1) ts = (rc, (lg', s'), ts1)"
        "ts' = empty_slot ai # ts1"
        by (auto simp: freed_def split: prod.splits)
      from Cons.IH[OF *(1) Cons.prems(2)] obtain k where
        k: "k < length ts" "freeable (ts ! k)"
        "ts1 = map (resolved ai) (take k ts) @ drop k ts"
        "lg' = (lg @ [freed t]) @ map freed (filter freeable (take k ts)) @
                 [(pt_addr (ts ! k), pt_size (ts ! k), rc)]"
        by blast
      show ?thesis
        using k True *(2) by (intro exI[of _ "Suc k"]) (simp add: resolved_def)
    qed
  qed
qed

text \<open>With any block manager, a resolve leaves a resolved prefix and an untouched rest.\<close>

lemma discard_scan_shape:
  "discard_scan ai bf s ts = (rc, s', ts') \<Longrightarrow>
   \<exists>k\<le>length ts. ts' = map (resolved ai) (take k ts) @ drop k ts"
proof (induction ts arbitrary: s ts')
  case Nil
  then show ?case by simp
next
  case (Cons t ts)
  show ?case
  proof (cases "freeable t")
    case False
    with Cons.prems obtain ts1 where
      *: "discard_scan ai bf s ts = (rc, s', ts1)" "ts' = t # ts1"
      by (auto simp: discard_scan_keep split: prod.splits)
    from Cons.IH[OF *(1)] obtain k where
      "k \<le> length ts" "ts1 = map (resolved ai) (take k ts) @ drop k ts" by blast
    with False *(2) show ?thesis
      by (intro exI[of _ "Suc k"]) (simp add: resolved_def)
  next
    case True
    obtain rc1 s1 where bf: "bf s (pt_addr t) (pt_size t) = (rc1, s1)"
      by (cases "bf s (pt_addr t) (pt_size t)")
    show ?thesis
    proof (cases "rc1 = 0")
      case False
      from discard_scan_free_fail[where bf=bf and s=s, OF True bf False] Cons.prems
      have "ts' = t # ts" by simp
      then show ?thesis by (intro exI[of _ 0]) simp
    next
      case rc0: True
      with Cons.prems discard_scan_free_ok[where bf=bf and s=s, OF True bf[unfolded rc0]]
      obtain ts1 where
        *: "discard_scan ai bf s1 ts = (rc, s', ts1)" "ts' = empty_slot ai # ts1"
        by (auto split: prod.splits)
      from Cons.IH[OF *(1)] obtain k where
        "k \<le> length ts" "ts1 = map (resolved ai) (take k ts) @ drop k ts" by blast
      with True *(2) show ?thesis
        by (intro exI[of _ "Suc k"]) (simp add: resolved_def)
    qed
  qed
qed

text \<open>Slots that are not freeable at the head of the list are passed over.\<close>

lemma discard_scan_skip:
  "\<forall>t\<in>set pre. \<not> freeable t \<Longrightarrow>
   discard_scan ai bf s (pre @ rest) =
     (case discard_scan ai bf s rest of (rc, s', r') \<Rightarrow> (rc, s', pre @ r'))"
  by (induction pre) (auto simp: discard_scan_keep split: prod.splits)

lemma nth_resolved_upto:
  "k \<le> length ts \<Longrightarrow> i < length ts \<Longrightarrow>
   (map f (take k ts) @ drop k ts) ! i = (if i < k then f (ts ! i) else ts ! i)"
  by (auto simp: nth_append min_def)

lemma filter_take_prefix:
  "prefix (map f (filter P (take k ts))) (map f (filter P ts))"
proof -
  have "map f (filter P ts) = map f (filter P (take k ts)) @ map f (filter P (drop k ts))"
    by (metis append_take_drop_id filter_append map_append)
  then show ?thesis by (simp add: prefix_def)
qed

text \<open>The calls of a resolve are, in order, a prefix of the freeable slots of the list.\<close>

lemma discard_scan_logged_calls:
  assumes "discard_scan ai (logged bf) ([], s) ts = (rc, (lg, s'), ts')"
  shows "prefix (map call_block lg) (map block_of (filter freeable ts))"
proof (cases "rc = 0")
  case True
  with discard_scan_logged_ok[of ai bf "[]" s ts lg s' ts'] assms
  show ?thesis by (simp add: comp_def)
next
  case False
  from discard_scan_logged_fail[OF assms False] obtain k where
    k: "k < length ts" "freeable (ts ! k)"
    "lg = [] @ map freed (filter freeable (take k ts)) @
            [(pt_addr (ts ! k), pt_size (ts ! k), rc)]"
    by blast
  have "map call_block lg = map block_of (filter freeable (take (Suc k) ts))"
    using k by (simp add: take_Suc_conv_app_nth comp_def call_block_def block_of_def freed_def)
  then show ?thesis by (simp add: filter_take_prefix)
qed

lemma discard_track_logged:
  assumes "wt_rec_discard_track ai (logged bf) ([], s) m = (rc, (lg, s'), m')"
  shows "\<exists>k\<le>track_next m.
      track m' = map (resolved ai) (take k (track m)) @ drop k (track m) \<and>
      track_entries m' = track_entries m \<and>
      prefix (map call_block lg) (map block_of (filter freeable (track m))) \<and>
      (rc = 0 \<longrightarrow> k = track_next m \<and> lg = map freed (filter freeable (track m)))"
proof -
  from assms obtain ts' where
    scan: "discard_scan ai (logged bf) ([], s) (track m) = (rc, (lg, s'), ts')"
    and m': "m' = m\<lparr>track := ts'\<rparr>"
    by (auto simp: wt_rec_discard_track_def split: prod.splits)
  note calls = discard_scan_logged_calls[OF scan]
  show ?thesis
  proof (cases "rc = 0")
    case True
    with discard_scan_logged_ok[of ai bf "[]" s "track m" lg s' ts'] scan calls
    show ?thesis
      by (intro exI[of _ "track_next m"]) (simp add: m')
  next
    case False
    from discard_scan_logged_fail[OF scan False] obtain k where
      "k < track_next m" "ts' = map (resolved ai) (take k (track m)) @ drop k (track m)"
      by blast
    with False calls show ?thesis
      by (intro exI[of _ k]) (simp add: m')
  qed
qed

lemma logged_fst: "fst (logged bf st a sz) = fst (bf (snd st) a sz)"
  by (simp add: logged_def split: prod.splits)

text \<open>With a block manager none of whose calls fails, a resolve returns 0.\<close>

lemma discard_scan_never_fails:
  "\<forall>st a sz. fst (bf st a sz) = 0 \<Longrightarrow> discard_scan ai bf s ts = (rc, s', ts') \<Longrightarrow> rc = 0"
proof (induction ts arbitrary: s ts')
  case Nil
  then show ?case by simp
next
  case (Cons t ts)
  show ?case
  proof (cases "freeable t")
    case False
    with Cons.prems(2) obtain ts1 where "discard_scan ai bf s ts = (rc, s', ts1)"
      by (auto simp: discard_scan_keep split: prod.splits)
    from Cons.IH[OF Cons.prems(1) this] show ?thesis .
  next
    case True
    obtain rc1 s1 where bf: "bf s (pt_addr t) (pt_size t) = (rc1, s1)"
      by (cases "bf s (pt_addr t) (pt_size t)")
    with Cons.prems(1) have "rc1 = 0"
      by (metis fst_conv)
    with Cons.prems(2) discard_scan_free_ok[where bf=bf and s=s, OF True bf[unfolded \<open>rc1 = 0\<close>]]
    obtain ts1 where "discard_scan ai bf s1 ts = (rc, s', ts1)"
      by (auto split: prod.splits)
    from Cons.IH[OF Cons.prems(1) this] show ?thesis .
  qed
qed

text \<open>
  Every resolve, told by its log: it went through \<open>k\<close> slots, resolved them with one
  successful call for each freeable one, and either reached the end and returned 0 or
  stopped at the freeable slot \<open>k\<close> whose call returned the non-zero code it returns.
\<close>

lemma discard_track_shape:
  assumes "wt_rec_discard_track ai (logged bf) ([], s) m = (rc, (lg, s'), m')"
  shows "\<exists>k\<le>track_next m.
      track m' = map (resolved ai) (take k (track m)) @ drop k (track m) \<and>
      track_entries m' = track_entries m \<and>
      lg = map freed (filter freeable (take k (track m))) @
             (if k < track_next m
              then [(pt_addr (track m ! k), pt_size (track m ! k), rc)] else []) \<and>
      (k < track_next m \<longrightarrow> rc \<noteq> 0 \<and> freeable (track m ! k)) \<and>
      (k = track_next m \<longrightarrow> rc = 0)"
proof -
  from assms obtain ts' where
    scan: "discard_scan ai (logged bf) ([], s) (track m) = (rc, (lg, s'), ts')"
    and m': "m' = m\<lparr>track := ts'\<rparr>"
    by (auto simp: wt_rec_discard_track_def split: prod.splits)
  show ?thesis
  proof (cases "rc = 0")
    case True
    with discard_scan_logged_ok[of ai bf "[]" s "track m" lg s' ts'] scan
    show ?thesis
      by (intro exI[of _ "track_next m"]) (simp add: m')
  next
    case False
    from discard_scan_logged_fail[OF scan False] obtain k where
      "k < track_next m" "freeable (track m ! k)"
      "ts' = map (resolved ai) (take k (track m)) @ drop k (track m)"
      "lg = [] @ map freed (filter freeable (take k (track m))) @
                  [(pt_addr (track m ! k), pt_size (track m ! k), rc)]"
      by blast
    with False show ?thesis
      by (intro exI[of _ k]) (simp add: m')
  qed
qed

lemma discard_track_never_fails:
  assumes "\<forall>st a sz. fst (bf st a sz) = 0"
    and "wt_rec_discard_track ai (logged bf) ([], s) m = (rc, (lg, s'), m')"
  shows "rc = 0"
proof -
  from assms(2) obtain ts' where
    scan: "discard_scan ai (logged bf) ([], s) (track m) = (rc, (lg, s'), ts')"
    by (auto simp: wt_rec_discard_track_def split: prod.splits)
  from assms(1) have "\<forall>st a sz. fst (logged bf st a sz) = 0"
    by (simp add: logged_fst)
  from discard_scan_never_fails[OF this scan] show ?thesis .
qed

text \<open>
  Claim C1, as stated, fails when a call of free fails. On the list with one slot of
  each kind and a block manager whose first call fails with code 5, resolve returns 5
  after the call for the Block slot: free was called for that slot, but the slot is
  not reset; and for the OverflowDiscarded slot after it free is not called at all, and
  it is not reset either. The list is returned as it was.
\<close>

theorem discard_track_stops_at_failure:
  "pt_type (track four_kinds ! 1) = WT_PT_BLOCK \<and>
   pt_type (track four_kinds ! 3) = WT_PT_OVFL_DISCARD \<and>
   block_of (track four_kinds ! 3) = (200, 20) \<and>
   wt_rec_discard_track (- 1) (logged (free_failing_at 0)) ([], 0) four_kinds =
     (5, ([(1, 10, 5)], 1), four_kinds) \<and>
   (200, 20) \<notin> set (map call_block [(1, 10, 5)])"
  by (simp add: wt_rec_discard_track_def four_kinds_def discard_scan.simps(2) logged_def
      free_failing_at_def block_of_def call_block_def)

text \<open>
  Claim C1, amended. For every list and every block manager, resolve goes through the
  list in order and handles each slot by its kind, up to the first call of free that
  fails. \<open>k\<close> is the number of slots it got through: the whole list unless a call of
  free failed, and the whole list in particular with a block manager none of whose calls
  fails; resolve returns 0 exactly when it got through the whole list, and a slot it did
  not get through is left as it was. An Empty slot and an OverflowActive slot
  are left exactly as they were, and free is not called for them. For a Block slot and
  for an OverflowDiscarded slot among the first \<open>k\<close>, free was called with the slot's addr
  and size and returned 0, and the slot was then reset to Empty with a null reference,
  the invalid address and size 0. The log of the calls of free is exactly one successful
  call for each such slot, in list order, followed by the failing call if there was one.
\<close>

theorem discard_track_by_kind:
  assumes "wt_rec_discard_track ai (logged bf) ([], s) m = (rc, (lg, s'), m')"
  shows "\<exists>k\<le>track_next m.
    track_next m' = track_next m \<and> track_entries m' = track_entries m \<and>
    (\<forall>i<track_next m.
       (pt_type (track m ! i) = WT_PT_EMPTY \<longrightarrow> track m' ! i = track m ! i) \<and>
       (pt_type (track m ! i) = WT_PT_OVFL \<longrightarrow> track m' ! i = track m ! i) \<and>
       (i < k \<and> pt_type (track m ! i) = WT_PT_BLOCK \<longrightarrow>
          track m' ! i =
            \<lparr>pt_type = WT_PT_EMPTY, pt_ref = NULL, pt_addr = ai, pt_size = 0\<rparr>) \<and>
       (i < k \<and> pt_type (track m ! i) = WT_PT_OVFL_DISCARD \<longrightarrow>
          track m' ! i =
            \<lparr>pt_type = WT_PT_EMPTY, pt_ref = NULL, pt_addr = ai, pt_size = 0\<rparr>) \<and>
       (k \<le> i \<longrightarrow> track m' ! i = track m ! i)) \<and>
    lg = map freed
           (filter (\<lambda>t. pt_type t = WT_PT_BLOCK \<or> pt_type t = WT_PT_OVFL_DISCARD)
              (take k (track m))) @
         (if k < track_next m
          then [(pt_addr (track m ! k), pt_size (track m ! k), rc)] else []) \<and>
    (k < track_next m \<longrightarrow>
       rc \<noteq> 0 \<and>
       (pt_type (track m ! k) = WT_PT_BLOCK \<or> pt_type (track m ! k) = WT_PT_OVFL_DISCARD)) \<and>
    (k = track_next m \<longrightarrow> rc = 0) \<and>
    ((\<forall>st a sz. fst (bf st a sz) = 0) \<longrightarrow> k = track_next m \<and> rc = 0)"
proof -
  from discard_track_shape[OF assms] obtain k where
    k: "k \<le> track_next m"
    and tm': "track m' = map (resolved ai) (take k (track m)) @ drop k (track m)"
    and ent: "track_entries m' = track_entries m"
    and lg: "lg = map freed (filter freeable (take k (track m))) @
             (if k < track_next m
              then [(pt_addr (track m ! k), pt_size (track m ! k), rc)] else [])"
    and stop: "k < track_next m \<longrightarrow> rc \<noteq> 0 \<and> freeable (track m ! k)"
    and fin: "k = track_next m \<longrightarrow> rc = 0"
    by blast
  have fr: "freeable = (\<lambda>t. pt_type t = WT_PT_BLOCK \<or> pt_type t = WT_PT_OVFL_DISCARD)"
    by (rule ext) (rule freeable_iff)
  have len: "track_next m' = track_next m"
    using k by (simp add: tm')
  have nth: "track m' ! i = (if i < k then resolved ai (track m ! i) else track m ! i)"
    if "i < track_next m" for i
    using nth_resolved_upto[OF k that, of "resolved ai"] by (simp add: tm')
  have slots: "(pt_type (track m ! i) = WT_PT_EMPTY \<longrightarrow> track m' ! i = track m ! i) \<and>
       (pt_type (track m ! i) = WT_PT_OVFL \<longrightarrow> track m' ! i = track m ! i) \<and>
       (i < k \<and> pt_type (track m ! i) = WT_PT_BLOCK \<longrightarrow>
          track m' ! i =
            \<lparr>pt_type = WT_PT_EMPTY, pt_ref = NULL, pt_addr = ai, pt_size = 0\<rparr>) \<and>
       (i < k \<and> pt_type (track m ! i) = WT_PT_OVFL_DISCARD \<longrightarrow>
          track m' ! i =
            \<lparr>pt_type = WT_PT_EMPTY, pt_ref = NULL, pt_addr = ai, pt_size = 0\<rparr>) \<and>
       (k \<le> i \<longrightarrow> track m' ! i = track m ! i)"
    if "i < track_next m" for i
    using nth[OF that]
    by (auto simp: resolved_def freeable_iff empty_slot_def)
  have never: "k = track_next m \<and> rc = 0" if "\<forall>st a sz. fst (bf st a sz) = 0"
  proof -
    from discard_track_never_fails[OF that assms] have "rc = 0" .
    with stop k show ?thesis by auto
  qed
  have stop': "k < track_next m \<longrightarrow>
       rc \<noteq> 0 \<and>
       (pt_type (track m ! k) = WT_PT_BLOCK \<or> pt_type (track m ! k) = WT_PT_OVFL_DISCARD)"
    using stop by (simp add: freeable_iff)
  from k len ent slots lg stop' fin never show ?thesis
    unfolding fr by blast
qed

theorem discard_track_by_kind_witness:
  "wt_rec_discard_track (- 1) (logged free_ok) ([], ()) four_kinds =
     (0, ([(1, 10, 0), (200, 20, 0)], ()), four_kinds_resolved) \<and>
   (\<forall>st a sz. fst (free_ok st a sz) = 0) \<and>
   (\<exists>k\<le>track_next four_kinds.
      k = track_next four_kinds \<and>
      track_next four_kinds_resolved = track_next four_kinds \<and>
      track_entries four_kinds_resolved = track_entries four_kinds \<and>
      track four_kinds_resolved ! 0 = track four_kinds ! 0 \<and>
      track four_kinds_resolved ! 1 =
        \<lparr>pt_type = WT_PT_EMPTY, pt_ref = NULL, pt_addr = - 1, pt_size = 0\<rparr> \<and>
      track four_kinds_resolved ! 2 = track four_kinds ! 2 \<and>
      track four_kinds_resolved ! 3 =
        \<lparr>pt_type = WT_PT_EMPTY, pt_ref = NULL, pt_addr = - 1, pt_size = 0\<rparr> \<and>
      [(1, 10, 0), (200, 20, 0)] =
        map freed
          (filter (\<lambda>t. pt_type t = WT_PT_BLOCK \<or> pt_type t = WT_PT_OVFL_DISCARD)
             (take k (track four_kinds))) @
        (if k < track_next four_kinds
         then [(pt_addr (track four_kinds ! k), pt_size (track four_kinds ! k), 0)] else []))"
proof -
  have res: "wt_rec_discard_track (- 1) (logged free_ok) ([], ()) four_kinds =
     (0, ([(1, 10, 0), (200, 20, 0)], ()), four_kinds_resolved)"
    by (simp add: wt_rec_discard_track_def four_kinds_def four_kinds_resolved_def
        discard_scan.simps(2) logged_def free_ok_def empty_slot_def)
  have ok: "\<forall>st a sz. fst (free_ok st a sz) = 0"
    by (simp add: free_ok_def)
  have ty: "pt_type (track four_kinds ! 0) = WT_PT_EMPTY"
    "pt_type (track four_kinds ! 1) = WT_PT_BLOCK"
    "pt_type (track four_kinds ! 2) = WT_PT_OVFL"
    "pt_type (track four_kinds ! 3) = WT_PT_OVFL_DISCARD"
    and len: "track_next four_kinds = 4"
    by (simp_all add: four_kinds_def)
  from discard_track_by_kind[OF res] obtain k where
    k: "k \<le> track_next four_kinds"
    and l: "track_next four_kinds_resolved = track_next four_kinds"
    and e: "track_entries four_kinds_resolved = track_entries four_kinds"
    and slot: "\<forall>i<track_next four_kinds.
       (pt_type (track four_kinds ! i) = WT_PT_EMPTY \<longrightarrow>
          track four_kinds_resolved ! i = track four_kinds ! i) \<and>
       (pt_type (track four_kinds ! i) = WT_PT_OVFL \<longrightarrow>
          track four_kinds_resolved ! i = track four_kinds ! i) \<and>
       (i < k \<and> pt_type (track four_kinds ! i) = WT_PT_BLOCK \<longrightarrow>
          track four_kinds_resolved ! i =
            \<lparr>pt_type = WT_PT_EMPTY, pt_ref = NULL, pt_addr = - 1, pt_size = 0\<rparr>) \<and>
       (i < k \<and> pt_type (track four_kinds ! i) = WT_PT_OVFL_DISCARD \<longrightarrow>
          track four_kinds_resolved ! i =
            \<lparr>pt_type = WT_PT_EMPTY, pt_ref = NULL, pt_addr = - 1, pt_size = 0\<rparr>) \<and>
       (k \<le> i \<longrightarrow> track four_kinds_resolved ! i = track four_kinds ! i)"
    and lg: "[(1, 10, 0), (200, 20, 0)] =
        map freed
          (filter (\<lambda>t. pt_type t = WT_PT_BLOCK \<or> pt_type t = WT_PT_OVFL_DISCARD)
             (take k (track four_kinds))) @
        (if k < track_next four_kinds
         then [(pt_addr (track four_kinds ! k), pt_size (track four_kinds ! k), 0)] else [])"
    and all: "(\<forall>st a sz. fst (free_ok st a sz) = 0) \<longrightarrow> k = track_next four_kinds \<and> (0 :: int) = 0"
    by blast
  from all ok have kn: "k = track_next four_kinds" by blast
  note s = slot[rule_format]
  have s0: "track four_kinds_resolved ! 0 = track four_kinds ! 0"
    using s[of 0] ty len by simp
  have s1: "track four_kinds_resolved ! 1 =
      \<lparr>pt_type = WT_PT_EMPTY, pt_ref = NULL, pt_addr = - 1, pt_size = 0\<rparr>"
    using s[of 1] ty len kn by simp
  have s2: "track four_kinds_resolved ! 2 = track four_kinds ! 2"
    using s[of 2] ty len by simp
  have s3: "track four_kinds_resolved ! 3 =
      \<lparr>pt_type = WT_PT_EMPTY, pt_ref = NULL, pt_addr = - 1, pt_size = 0\<rparr>"
    using s[of 3] ty len kn by simp
  from k kn l e s0 s1 s2 s3 lg have "\<exists>k\<le>track_next four_kinds.
      k = track_next four_kinds \<and>
      track_next four_kinds_resolved = track_next four_kinds \<and>
      track_entries four_kinds_resolved = track_entries four_kinds \<and>
      track four_kinds_resolved ! 0 = track four_kinds ! 0 \<and>
      track four_kinds_resolved ! 1 =
        \<lparr>pt_type = WT_PT_EMPTY, pt_ref = NULL, pt_addr = - 1, pt_size = 0\<rparr> \<and>
      track four_kinds_resolved ! 2 = track four_kinds ! 2 \<and>
      track four_kinds_resolved ! 3 =
        \<lparr>pt_type = WT_PT_EMPTY, pt_ref = NULL, pt_addr = - 1, pt_size = 0\<rparr> \<and>
      [(1, 10, 0), (200, 20, 0)] =
        map freed
          (filter (\<lambda>t. pt_type t = WT_PT_BLOCK \<or> pt_type t = WT_PT_OVFL_DISCARD)
             (take k (track four_kinds))) @
        (if k < track_next four_kinds
         then [(pt_addr (track four_kinds ! k), pt_size (track four_kinds ! k), 0)] else [])"
    by (intro exI[of _ k] conjI)
  with res ok show ?thesis by (intro conjI)
qed

text \<open>
  Claim C2, as stated, fails in its last clause. With one Block slot at (100, 10) and a
  block manager whose first call fails with code 5, resolve returns 5 and leaves the slot
  as it was; the retry, on the state the first call left, passes the same slot to the
  block manager again. The log of the call and its retry has two calls of free(100, 10)
  for the one tracked slot.
\<close>

theorem discard_retry_frees_failing_slot_again:
  "track_next one_block = 1 \<and>
   wt_rec_discard_track (- 1) (logged (free_failing_at 0)) ([], 0) one_block =
     (5, ([(100, 10, 5)], 1), one_block) \<and>
   wt_rec_discard_track (- 1) (logged (free_failing_at 0)) ([(100, 10, 5)], 1) one_block =
     (0, ([(100, 10, 5), (100, 10, 0)], 2), one_block\<lparr>track := [empty_slot (- 1)]\<rparr>) \<and>
   count_list (map call_block [(100, 10, 5), (100, 10, 0)]) (100, 10) = 2 \<and>
   \<not> count_list (map call_block [(100, 10, 5), (100, 10, 0)]) (100, 10) \<le> 1"
  by (simp add: wt_rec_discard_track_def one_block_def discard_scan.simps(2) logged_def
      free_failing_at_def call_block_def)

lemma discard_scan_logged_extends:
  assumes "discard_scan ai (logged bf) (lg, s) ts = (rc, (lg', s'), ts')"
  shows "\<exists>rest. lg' = lg @ rest"
proof (cases "rc = 0")
  case True
  with discard_scan_logged_ok[of ai bf lg s ts lg' s' ts'] assms show ?thesis by simp
next
  case False
  from discard_scan_logged_fail[OF assms False] show ?thesis by auto
qed

text \<open>A resolve of a list that starts with a freeable slot calls free for that slot first.\<close>

lemma discard_scan_logged_first:
  assumes "freeable t"
    and "discard_scan ai (logged bf) (lg, s) (t # ts) = (rc, (lg', s'), ts')"
  shows "\<exists>rest. lg' = lg @ (pt_addr t, pt_size t, fst (bf s (pt_addr t) (pt_size t))) # rest"
proof -
  obtain rc1 s1 where bf: "bf s (pt_addr t) (pt_size t) = (rc1, s1)"
    by (cases "bf s (pt_addr t) (pt_size t)")
  then have lbf: "logged bf (lg, s) (pt_addr t) (pt_size t) =
      (rc1, (lg @ [(pt_addr t, pt_size t, rc1)], s1))"
    by (simp add: logged_apply)
  show ?thesis
  proof (cases "rc1 = 0")
    case False
    from discard_scan_free_fail[where bf="logged bf" and s="(lg, s)", OF assms(1) lbf False]
      assms(2) bf
    show ?thesis by auto
  next
    case True
    with assms(2)
      discard_scan_free_ok[where bf="logged bf" and s="(lg, s)", OF assms(1) lbf[unfolded True]]
    obtain ts1 where
      "discard_scan ai (logged bf) (lg @ [(pt_addr t, pt_size t, 0)], s1) ts = (rc, (lg', s'), ts1)"
      by (auto split: prod.splits)
    from discard_scan_logged_extends[OF this] bf True show ?thesis by auto
  qed
qed

text \<open>
  A resolve that returns an error, and the resolve after it: the retry leaves the slots
  before the failing one alone and starts with a call of free for the failing slot.
\<close>

lemma discard_track_failure_at:
  fixes bf :: "'s \<Rightarrow> u32 \<Rightarrow> u32 \<Rightarrow> int \<times> 's"
  assumes "wt_rec_discard_track ai (logged bf) ([], s) m = (rc, (lg, s'), m')"
    and "rc \<noteq> 0"
  shows "\<exists>k<track_next m.
      (pt_type (track m ! k) = WT_PT_BLOCK \<or> pt_type (track m ! k) = WT_PT_OVFL_DISCARD) \<and>
      lg = map freed (filter freeable (take k (track m))) @
             [(pt_addr (track m ! k), pt_size (track m ! k), rc)] \<and>
      take k (track m') = map (resolved ai) (take k (track m)) \<and>
      drop k (track m') = drop k (track m) \<and>
      track_entries m' = track_entries m \<and>
      (\<forall>(bf2 :: 's \<Rightarrow> u32 \<Rightarrow> u32 \<Rightarrow> int \<times> 's) s2 rc2 lg2 s2' m2.
         wt_rec_discard_track ai (logged bf2) ([], s2) m' = (rc2, (lg2, s2'), m2) \<longrightarrow>
           take k (track m2) = take k (track m') \<and>
           prefix (map call_block lg2) (map block_of (filter freeable (drop k (track m)))) \<and>
           lg2 \<noteq> [] \<and>
           hd lg2 =
             (pt_addr (track m ! k), pt_size (track m ! k),
              fst (bf2 s2 (pt_addr (track m ! k)) (pt_size (track m ! k)))))"
proof -
  from assms(1) obtain ts' where
    scan: "discard_scan ai (logged bf) ([], s) (track m) = (rc, (lg, s'), ts')"
    and m': "m' = m\<lparr>track := ts'\<rparr>"
    by (auto simp: wt_rec_discard_track_def split: prod.splits)
  from discard_scan_logged_fail[OF scan assms(2)] obtain k where
    k: "k < track_next m" "freeable (track m ! k)"
    and ts': "ts' = map (resolved ai) (take k (track m)) @ drop k (track m)"
    and lg: "lg = [] @ map freed (filter freeable (take k (track m))) @
                  [(pt_addr (track m ! k), pt_size (track m ! k), rc)]"
    by blast
  let ?pre = "map (resolved ai) (take k (track m))"
  let ?t = "track m ! k"
  have pre: "\<forall>t\<in>set ?pre. \<not> freeable t"
    by (auto simp: resolved_not_freeable)
  have lenpre: "length ?pre = k" using k(1) by simp
  have dropk: "drop k (track m) = ?t # drop (Suc k) (track m)"
    using k(1) by (simp add: Cons_nth_drop_Suc)
  have retry: "take k (track m2) = take k (track m') \<and>
           prefix (map call_block lg2) (map block_of (filter freeable (drop k (track m)))) \<and>
           lg2 \<noteq> [] \<and>
           hd lg2 = (pt_addr ?t, pt_size ?t, fst (bf2 s2 (pt_addr ?t) (pt_size ?t)))"
    if r: "wt_rec_discard_track ai (logged bf2) ([], s2) m' = (rc2, (lg2, s2'), m2)"
    for bf2 :: "'s \<Rightarrow> u32 \<Rightarrow> u32 \<Rightarrow> int \<times> 's" and s2 rc2 lg2 s2' m2
  proof -
    from r obtain ts2 where
      scan2: "discard_scan ai (logged bf2) ([], s2) (?pre @ drop k (track m)) =
        (rc2, (lg2, s2'), ts2)"
      and m2: "m2 = m'\<lparr>track := ts2\<rparr>"
      by (auto simp: wt_rec_discard_track_def m' ts' split: prod.splits)
    from scan2 discard_scan_skip[OF pre, of ai "logged bf2" "([], s2)" "drop k (track m)"]
    obtain r' where
      rest: "discard_scan ai (logged bf2) ([], s2) (drop k (track m)) = (rc2, (lg2, s2'), r')"
      and ts2: "ts2 = ?pre @ r'"
      by (auto split: prod.splits)
    have a: "take k (track m2) = take k (track m')"
      using lenpre by (simp add: m2 ts2 m' ts')
    from discard_scan_logged_calls[OF rest]
    have b: "prefix (map call_block lg2) (map block_of (filter freeable (drop k (track m))))" .
    from discard_scan_logged_first[OF k(2) rest[unfolded dropk]]
    have c: "lg2 \<noteq> [] \<and>
        hd lg2 = (pt_addr ?t, pt_size ?t, fst (bf2 s2 (pt_addr ?t) (pt_size ?t)))"
      by auto
    from a b c show ?thesis by simp
  qed
  have kind: "pt_type (track m ! k) = WT_PT_BLOCK \<or> pt_type (track m ! k) = WT_PT_OVFL_DISCARD"
    using k(2) by (simp add: freeable_iff)
  have lg': "lg = map freed (filter freeable (take k (track m))) @
             [(pt_addr (track m ! k), pt_size (track m ! k), rc)]"
    using lg by simp
  have tk: "take k (track m') = map (resolved ai) (take k (track m))"
    using lenpre by (simp add: m' ts')
  have dr: "drop k (track m') = drop k (track m)"
    using lenpre by (simp add: m' ts')
  have em': "track_entries m' = track_entries m"
    by (simp add: m')
  from k(1) kind lg' tk dr em' retry show ?thesis
    by blast
qed

text \<open>A resolve returns an error exactly when one of its calls of free failed.\<close>

lemma discard_track_error_iff:
  assumes "wt_rec_discard_track ai (logged bf) ([], s) m = (rc, (lg, s'), m')"
  shows "rc \<noteq> 0 \<longleftrightarrow> (\<exists>c\<in>set lg. snd (snd c) \<noteq> 0)"
proof -
  from discard_track_shape[OF assms] obtain k where
    k: "k \<le> track_next m"
    and lg: "lg = map freed (filter freeable (take k (track m))) @
             (if k < track_next m
              then [(pt_addr (track m ! k), pt_size (track m ! k), rc)] else [])"
    and stop: "k < track_next m \<longrightarrow> rc \<noteq> 0 \<and> freeable (track m ! k)"
    and fin: "k = track_next m \<longrightarrow> rc = 0"
    by blast
  show ?thesis
  proof (cases "k < track_next m")
    case True
    with stop lg show ?thesis by auto
  next
    case False
    with k fin lg show ?thesis by (auto simp: freed_def)
  qed
qed

text \<open>When the call for the first freeable slot fails, nothing is changed.\<close>

lemma discard_track_first_fails:
  assumes res: "wt_rec_discard_track ai (logged bf) ([], s) m = (rc, (lg, s'), m')"
    and tm: "track m = pre @ t # post"
    and pre: "\<forall>x\<in>set pre. \<not> freeable x"
    and t: "freeable t"
    and fails: "fst (bf s (pt_addr t) (pt_size t)) \<noteq> 0"
  shows "rc = fst (bf s (pt_addr t) (pt_size t)) \<and> lg = [(pt_addr t, pt_size t, rc)] \<and> m' = m"
proof -
  obtain rc1 s1 where bf: "bf s (pt_addr t) (pt_size t) = (rc1, s1)"
    by (cases "bf s (pt_addr t) (pt_size t)")
  with fails have rc1: "rc1 \<noteq> 0" by simp
  from bf have lbf: "logged bf ([], s) (pt_addr t) (pt_size t) =
      (rc1, ([] @ [(pt_addr t, pt_size t, rc1)], s1))"
    by (simp add: logged_apply)
  from discard_scan_free_fail[where bf="logged bf" and s="([], s)", OF t lbf rc1]
  have "discard_scan ai (logged bf) ([], s) (t # post) =
      (rc1, ([(pt_addr t, pt_size t, rc1)], s1), t # post)"
    by simp
  with discard_scan_skip[OF pre, of ai "logged bf" "([], s)" "t # post"]
  have "discard_scan ai (logged bf) ([], s) (track m) =
      (rc1, ([(pt_addr t, pt_size t, rc1)], s1), track m)"
    by (simp add: tm)
  with res bf show ?thesis
    by (auto simp: wt_rec_discard_track_def)
qed

text \<open>
  Claim C2, amended. Resolve returns an error exactly when a call of free failed, and it
  returns the code of that call at once: when the call for the first freeable slot
  fails, nothing has been changed and that call is the only one. In general, when
  resolve returns an error \<open>rc\<close>, it stopped at a Block or OverflowDiscarded slot \<open>k\<close>:
  the calls of free were one successful call for each freeable slot before \<open>k\<close>, in
  order, and then the call for slot \<open>k\<close>, which returned \<open>rc\<close>; the slots before \<open>k\<close>
  are resolved (the freed ones reset to Empty), and slot \<open>k\<close> and all slots after it are
  as they were before the call. A later resolve of the list, with any block manager in
  any state, leaves the first \<open>k\<close> slots alone, calls free first for the failing slot
  \<open>k\<close> again, and after that only for slots after \<open>k\<close>, in order: the failing slot is
  passed to free again by every retry, a slot whose free succeeded never is.
\<close>

theorem discard_track_failure:
  fixes bf :: "'s \<Rightarrow> u32 \<Rightarrow> u32 \<Rightarrow> int \<times> 's"
  assumes "wt_rec_discard_track ai (logged bf) ([], s) m = (rc, (lg, s'), m')"
  shows "(rc \<noteq> 0 \<longleftrightarrow> (\<exists>c\<in>set lg. snd (snd c) \<noteq> 0)) \<and>
    (\<forall>pre t post.
       track m = pre @ t # post \<and> (\<forall>x\<in>set pre. \<not> freeable x) \<and> freeable t \<and>
       fst (bf s (pt_addr t) (pt_size t)) \<noteq> 0 \<longrightarrow>
         rc = fst (bf s (pt_addr t) (pt_size t)) \<and> lg = [(pt_addr t, pt_size t, rc)] \<and>
         m' = m) \<and>
    (rc \<noteq> 0 \<longrightarrow>
      (\<exists>k<track_next m.
        (pt_type (track m ! k) = WT_PT_BLOCK \<or> pt_type (track m ! k) = WT_PT_OVFL_DISCARD) \<and>
        lg = map freed (filter freeable (take k (track m))) @
               [(pt_addr (track m ! k), pt_size (track m ! k), rc)] \<and>
        take k (track m') = map (resolved ai) (take k (track m)) \<and>
        drop k (track m') = drop k (track m) \<and>
        track_entries m' = track_entries m \<and>
        (\<forall>(bf2 :: 's \<Rightarrow> u32 \<Rightarrow> u32 \<Rightarrow> int \<times> 's) s2 rc2 lg2 s2' m2.
           wt_rec_discard_track ai (logged bf2) ([], s2) m' = (rc2, (lg2, s2'), m2) \<longrightarrow>
             take k (track m2) = take k (track m') \<and>
             prefix (map call_block lg2) (map block_of (filter freeable (drop k (track m)))) \<and>
             lg2 \<noteq> [] \<and>
             hd lg2 =
               (pt_addr (track m ! k), pt_size (track m ! k),
                fst (bf2 s2 (pt_addr (track m ! k)) (pt_size (track m ! k)))))))"
proof (intro conjI allI impI)
  show "rc \<noteq> 0 \<longleftrightarrow> (\<exists>c\<in>set lg. snd (snd c) \<noteq> 0)"
    by (rule discard_track_error_iff[OF assms])
next
  fix pre t post
  assume h: "track m = pre @ t # post \<and> (\<forall>x\<in>set pre. \<not> freeable x) \<and> freeable t \<and>
       fst (bf s (pt_addr t) (pt_size t)) \<noteq> 0"
  from h have 1: "track m = pre @ t # post" and 2: "\<forall>x\<in>set pre. \<not> freeable x"
    and 3: "freeable t" and 4: "fst (bf s (pt_addr t) (pt_size t)) \<noteq> 0"
    by simp_all
  note r = discard_track_first_fails[OF assms 1 2 3 4]
  from r show "rc = fst (bf s (pt_addr t) (pt_size t))" by simp
  from r show "lg = [(pt_addr t, pt_size t, rc)]" by simp
  from r show "m' = m" by simp
next
  assume "rc \<noteq> 0"
  from discard_track_failure_at[OF assms this]
  show "\<exists>k<track_next m.
        (pt_type (track m ! k) = WT_PT_BLOCK \<or> pt_type (track m ! k) = WT_PT_OVFL_DISCARD) \<and>
        lg = map freed (filter freeable (take k (track m))) @
               [(pt_addr (track m ! k), pt_size (track m ! k), rc)] \<and>
        take k (track m') = map (resolved ai) (take k (track m)) \<and>
        drop k (track m') = drop k (track m) \<and>
        track_entries m' = track_entries m \<and>
        (\<forall>(bf2 :: 's \<Rightarrow> u32 \<Rightarrow> u32 \<Rightarrow> int \<times> 's) s2 rc2 lg2 s2' m2.
           wt_rec_discard_track ai (logged bf2) ([], s2) m' = (rc2, (lg2, s2'), m2) \<longrightarrow>
             take k (track m2) = take k (track m') \<and>
             prefix (map call_block lg2) (map block_of (filter freeable (drop k (track m)))) \<and>
             lg2 \<noteq> [] \<and>
             hd lg2 =
               (pt_addr (track m ! k), pt_size (track m ! k),
                fst (bf2 s2 (pt_addr (track m ! k)) (pt_size (track m ! k)))))" .
qed

theorem discard_track_failure_witness:
  "wt_rec_discard_track (- 1) (logged (free_failing_at 2)) ([], 0) five_blocks =
     (5, ([(1, 10, 0), (2, 10, 0), (3, 10, 5)], 3), five_blocks_stopped) \<and>
   (5 :: int) \<noteq> 0 \<and>
   (\<exists>c\<in>set [(1 :: u32, 10 :: u32, 0 :: int), (2, 10, 0), (3, 10, 5)]. snd (snd c) \<noteq> 0) \<and>
   (\<exists>k<track_next five_blocks.
      (pt_type (track five_blocks ! k) = WT_PT_BLOCK \<or>
       pt_type (track five_blocks ! k) = WT_PT_OVFL_DISCARD) \<and>
      [(1, 10, 0), (2, 10, 0), (3, 10, 5)] =
        map freed (filter freeable (take k (track five_blocks))) @
          [(pt_addr (track five_blocks ! k), pt_size (track five_blocks ! k), 5)] \<and>
      take k (track five_blocks_stopped) = map (resolved (- 1)) (take k (track five_blocks)) \<and>
      drop k (track five_blocks_stopped) = drop k (track five_blocks) \<and>
      track_entries five_blocks_stopped = track_entries five_blocks \<and>
      (\<forall>(bf2 :: nat \<Rightarrow> u32 \<Rightarrow> u32 \<Rightarrow> int \<times> nat) s2 rc2 lg2 s2' m2.
         wt_rec_discard_track (- 1) (logged bf2) ([], s2) five_blocks_stopped =
           (rc2, (lg2, s2'), m2) \<longrightarrow>
           take k (track m2) = take k (track five_blocks_stopped) \<and>
           prefix (map call_block lg2)
             (map block_of (filter freeable (drop k (track five_blocks)))) \<and>
           lg2 \<noteq> [] \<and>
           hd lg2 =
             (pt_addr (track five_blocks ! k), pt_size (track five_blocks ! k),
              fst (bf2 s2 (pt_addr (track five_blocks ! k))
                (pt_size (track five_blocks ! k)))))) \<and>
   wt_rec_discard_track (- 1) (logged (free_failing_at 0)) ([], 0) one_block =
     (5, ([(100, 10, 5)], 1), one_block) \<and>
   track one_block =
     [] @ \<lparr>pt_type = WT_PT_BLOCK, pt_ref = NULL, pt_addr = 100, pt_size = 10\<rparr> # [] \<and>
   freeable \<lparr>pt_type = WT_PT_BLOCK, pt_ref = NULL, pt_addr = 100, pt_size = 10\<rparr> \<and>
   fst (free_failing_at 0 0 100 10) \<noteq> 0 \<and>
   (5 :: int) = fst (free_failing_at 0 0 100 10)"
proof -
  let ?b = "\<lparr>pt_type = WT_PT_BLOCK, pt_ref = NULL, pt_addr = 100, pt_size = 10\<rparr>"
  have res: "wt_rec_discard_track (- 1) (logged (free_failing_at 2)) ([], 0) five_blocks =
     (5, ([(1, 10, 0), (2, 10, 0), (3, 10, 5)], 3), five_blocks_stopped)"
    by (simp add: wt_rec_discard_track_def five_blocks_def five_blocks_stopped_def
        discard_scan.simps(2) logged_def free_failing_at_def empty_slot_def)
  have err: "(5 :: int) \<noteq> 0" by simp
  note th = discard_track_failure[OF res]
  from th err
  have c1: "\<exists>c\<in>set [(1 :: u32, 10 :: u32, 0 :: int), (2, 10, 0), (3, 10, 5)]. snd (snd c) \<noteq> 0"
    by blast
  note c2 = th[THEN conjunct2, THEN conjunct2, THEN mp, OF err]
  have res1: "wt_rec_discard_track (- 1) (logged (free_failing_at 0)) ([], 0) one_block =
     (5, ([(100, 10, 5)], 1), one_block)"
    by (simp add: wt_rec_discard_track_def one_block_def discard_scan.simps(2) logged_def
        free_failing_at_def)
  have h1: "track one_block = [] @ ?b # []"
    by (simp add: one_block_def)
  have h2: "freeable ?b"
    by (simp add: freeable_def)
  have h3: "fst (free_failing_at 0 0 100 10) \<noteq> 0"
    by (simp add: free_failing_at_def)
  from discard_track_failure[OF res1, THEN conjunct2, THEN conjunct1, rule_format,
      of "[]" ?b "[]"] h1 h2 h3
  have c3: "(5 :: int) = fst (free_failing_at 0 0 100 10)"
    by simp
  from res err c1 c2 res1 h1 h2 h3 c3 show ?thesis
    by (intro conjI)
qed

subsection \<open>Registration\<close>

lemma track_dup_iff:
  "track_dup ts ty r a sz \<longleftrightarrow>
     \<lparr>pt_type = ty, pt_ref = r, pt_addr = a, pt_size = sz\<rparr> \<in> set ts"
  by (induction ts) auto

text \<open>The three ways a call of \<open>__wt_rec_track\<close> can end.\<close>

lemma wt_rec_track_cases:
  assumes "wt_rec_track realloc s m ty r a sz = (rc, s', m')"
  defines "e \<equiv> \<lparr>pt_type = ty, pt_ref = r, pt_addr = a, pt_size = sz\<rparr>"
  shows "(e \<in> set (track m) \<and> rc = 0 \<and> s' = s \<and> m' = m) \<or>
         (e \<notin> set (track m) \<and> rc = 0 \<and> track m' = track m @ [e]) \<or>
         (e \<notin> set (track m) \<and> rc \<noteq> 0 \<and> m' = m)"
  using assms(1) unfolding e_def
  by (auto simp: wt_rec_track_def track_dup_iff Let_def split: if_splits prod.splits)

text \<open>
  When the tuple is in the list, or a slot is left, or the allocation succeeds, the
  registration returns 0 and the tuple is in the list: appended if it was not there.
\<close>

lemma wt_rec_track_stores:
  assumes "\<lparr>pt_type = ty, pt_ref = r, pt_addr = a, pt_size = sz\<rparr> \<in> set (track m) \<or>
      track_next m \<noteq> track_entries m \<or> fst (realloc s (track_entries m + 20)) = 0"
  shows "\<exists>s1 m1. wt_rec_track realloc s m ty r a sz = (0, s1, m1) \<and>
      track m1 =
        (if \<lparr>pt_type = ty, pt_ref = r, pt_addr = a, pt_size = sz\<rparr> \<in> set (track m)
         then track m
         else track m @ [\<lparr>pt_type = ty, pt_ref = r, pt_addr = a, pt_size = sz\<rparr>])"
  using assms
  by (auto simp: wt_rec_track_def track_dup_iff Let_def split: prod.splits)

lemma track_times_present:
  "\<lparr>pt_type = ty, pt_ref = r, pt_addr = a, pt_size = sz\<rparr> \<in> set (track m) \<Longrightarrow>
   track_times realloc s m ty r a sz n = (replicate n 0, s, m)"
  by (induction n) (simp_all add: wt_rec_track_def track_dup_iff)

text \<open>
  Claim C3, as stated, fails in its second part. The list with two identical
  OverflowDiscarded slots is reached from the empty list (one overflow tuple registered
  in both states, then a reset); three registrations of that tuple return 0 and leave
  both slots. And on the empty list, with an allocation that fails, three registrations
  return the error and leave no slot.
\<close>

theorem track_times_not_one_entry:
  "run realloc_ok free_ok (- 1) ((), no_track)
     [Rec_Track WT_PT_OVFL 7 100 10, Rec_Track WT_PT_OVFL_DISCARD 7 100 10,
      Rec_Track_Ovfl_Reset] = Inr ((), two_discarded) \<and>
   track_times realloc_ok () two_discarded WT_PT_OVFL_DISCARD 7 100 10 3 =
     ([0, 0, 0], (), two_discarded) \<and>
   count_list (track two_discarded)
     \<lparr>pt_type = WT_PT_OVFL_DISCARD, pt_ref = 7, pt_addr = 100, pt_size = 10\<rparr> = 2 \<and>
   track_times realloc_failing () no_track WT_PT_BLOCK NULL 100 10 3 =
     ([12, 12, 12], (), no_track) \<and>
   count_list (track no_track)
     \<lparr>pt_type = WT_PT_BLOCK, pt_ref = NULL, pt_addr = 100, pt_size = 10\<rparr> = 0"
  by (simp add: numeral_3_eq_3 wt_rec_track_def wt_rec_track_ovfl_reset_def realloc_ok_def
      realloc_failing_def two_discarded_def no_track_def NULL_def)

text \<open>
  Claim C3, amended. Registration is idempotent on identical tuples: if a slot with the
  identical (kind, reference, addr, size) is in the list, \<open>__wt_rec_track\<close> returns 0 and
  leaves the list, its allocation and the session state as they were, however often it
  is called. When the same tuple is registered \<open>n\<close> times, \<open>n\<close> at least 1, on a list
  that holds it at most once, and the first registration can store it (the tuple is
  there already, or a slot is left, or the allocation succeeds), every call returns 0
  and the list holds exactly one slot with that tuple afterwards: the list as it was,
  with the tuple appended if it was missing. A registration that needs an allocation
  which fails returns the error of the allocation and stores nothing.
\<close>

theorem track_idempotent:
  "(\<lparr>pt_type = ty, pt_ref = r, pt_addr = a, pt_size = sz\<rparr> \<in> set (track m) \<longrightarrow>
      wt_rec_track realloc s m ty r a sz = (0, s, m) \<and>
      track_times realloc s m ty r a sz n = (replicate n 0, s, m)) \<and>
   (count_list (track m0) \<lparr>pt_type = ty, pt_ref = r, pt_addr = a, pt_size = sz\<rparr> \<le> 1 \<and>
    1 \<le> n0 \<and>
    (\<lparr>pt_type = ty, pt_ref = r, pt_addr = a, pt_size = sz\<rparr> \<in> set (track m0) \<or>
     track_next m0 \<noteq> track_entries m0 \<or>
     fst (realloc s0 (track_entries m0 + 20)) = 0) \<longrightarrow>
      (\<exists>s' m'. track_times realloc s0 m0 ty r a sz n0 = (replicate n0 0, s', m') \<and>
         track m' =
           (if \<lparr>pt_type = ty, pt_ref = r, pt_addr = a, pt_size = sz\<rparr> \<in> set (track m0)
            then track m0
            else track m0 @ [\<lparr>pt_type = ty, pt_ref = r, pt_addr = a, pt_size = sz\<rparr>]) \<and>
         count_list (track m') \<lparr>pt_type = ty, pt_ref = r, pt_addr = a, pt_size = sz\<rparr> = 1)) \<and>
   (\<lparr>pt_type = ty, pt_ref = r, pt_addr = a, pt_size = sz\<rparr> \<notin> set (track m1) \<and>
    track_next m1 = track_entries m1 \<and>
    fst (realloc s1 (track_entries m1 + 20)) \<noteq> 0 \<longrightarrow>
      wt_rec_track realloc s1 m1 ty r a sz =
        (fst (realloc s1 (track_entries m1 + 20)), snd (realloc s1 (track_entries m1 + 20)), m1))"
proof (intro conjI impI)
  let ?e = "\<lparr>pt_type = ty, pt_ref = r, pt_addr = a, pt_size = sz\<rparr>"
  {
    assume "?e \<in> set (track m)"
    then show "wt_rec_track realloc s m ty r a sz = (0, s, m)"
      by (simp add: wt_rec_track_def track_dup_iff)
  next
    assume "?e \<in> set (track m)"
    then show "track_times realloc s m ty r a sz n = (replicate n 0, s, m)"
      by (rule track_times_present)
  next
    assume h: "count_list (track m0) ?e \<le> 1 \<and> 1 \<le> n0 \<and>
      (?e \<in> set (track m0) \<or> track_next m0 \<noteq> track_entries m0 \<or>
       fst (realloc s0 (track_entries m0 + 20)) = 0)"
    then obtain n' where n0: "n0 = Suc n'" by (cases n0) auto
    from h wt_rec_track_stores[of ty r a sz m0 realloc s0] obtain s1 m1 where
      one: "wt_rec_track realloc s0 m0 ty r a sz = (0, s1, m1)"
      and tm1: "track m1 = (if ?e \<in> set (track m0) then track m0 else track m0 @ [?e])"
      by blast
    then have "?e \<in> set (track m1)" by simp
    from track_times_present[OF this, of realloc s1 n']
    have rest: "track_times realloc s1 m1 ty r a sz n' = (replicate n' 0, s1, m1)" .
    have all: "track_times realloc s0 m0 ty r a sz n0 = (replicate n0 0, s1, m1)"
      by (simp add: n0 one rest)
    have "count_list (track m1) ?e = 1"
    proof (cases "?e \<in> set (track m0)")
      case True
      then have "count_list (track m0) ?e \<noteq> 0" by (simp add: count_list_0_iff)
      with h True tm1 show ?thesis by simp
    next
      case False
      then have "count_list (track m0) ?e = 0" by (simp add: count_list_0_iff)
      with False tm1 show ?thesis by simp
    qed
    with all tm1
    show "\<exists>s' m'. track_times realloc s0 m0 ty r a sz n0 = (replicate n0 0, s', m') \<and>
         track m' = (if ?e \<in> set (track m0) then track m0 else track m0 @ [?e]) \<and>
         count_list (track m') ?e = 1"
      by blast
  next
    assume "?e \<notin> set (track m1) \<and> track_next m1 = track_entries m1 \<and>
      fst (realloc s1 (track_entries m1 + 20)) \<noteq> 0"
    then show "wt_rec_track realloc s1 m1 ty r a sz =
        (fst (realloc s1 (track_entries m1 + 20)), snd (realloc s1 (track_entries m1 + 20)), m1)"
      by (cases "realloc s1 (track_entries m1 + 20)")
        (simp add: wt_rec_track_def track_dup_iff)
  }
qed

theorem track_idempotent_witness:
  "\<lparr>pt_type = WT_PT_BLOCK, pt_ref = NULL, pt_addr = 100, pt_size = 10\<rparr> \<in> set (track one_block) \<and>
   wt_rec_track realloc_ok () one_block WT_PT_BLOCK NULL 100 10 = (0, (), one_block) \<and>
   track_times realloc_ok () one_block WT_PT_BLOCK NULL 100 10 3 =
     (replicate 3 0, (), one_block) \<and>
   count_list (track no_track)
     \<lparr>pt_type = WT_PT_BLOCK, pt_ref = NULL, pt_addr = 100, pt_size = 10\<rparr> \<le> 1 \<and>
   (1 :: nat) \<le> 3 \<and>
   fst (realloc_ok () (track_entries no_track + 20)) = 0 \<and>
   (\<exists>s' m'. track_times realloc_ok () no_track WT_PT_BLOCK NULL 100 10 3 =
        (replicate 3 0, s', m') \<and>
      track m' =
        (if \<lparr>pt_type = WT_PT_BLOCK, pt_ref = NULL, pt_addr = 100, pt_size = 10\<rparr>
              \<in> set (track no_track)
         then track no_track
         else track no_track @
           [\<lparr>pt_type = WT_PT_BLOCK, pt_ref = NULL, pt_addr = 100, pt_size = 10\<rparr>]) \<and>
      count_list (track m')
        \<lparr>pt_type = WT_PT_BLOCK, pt_ref = NULL, pt_addr = 100, pt_size = 10\<rparr> = 1) \<and>
   \<lparr>pt_type = WT_PT_BLOCK, pt_ref = NULL, pt_addr = 100, pt_size = 10\<rparr>
     \<notin> set (track no_track) \<and>
   track_next no_track = track_entries no_track \<and>
   fst (realloc_failing () (track_entries no_track + 20)) \<noteq> 0 \<and>
   wt_rec_track realloc_failing () no_track WT_PT_BLOCK NULL 100 10 =
     (fst (realloc_failing () (track_entries no_track + 20)),
      snd (realloc_failing () (track_entries no_track + 20)), no_track)"
proof -
  let ?e = "\<lparr>pt_type = WT_PT_BLOCK, pt_ref = NULL, pt_addr = 100, pt_size = 10\<rparr>"
  have h1: "?e \<in> set (track one_block)"
    by (simp add: one_block_def)
  have h2: "count_list (track no_track) ?e \<le> 1"
    by (simp add: no_track_def)
  have h3: "(1 :: nat) \<le> 3" by simp
  have h4: "fst (realloc_ok () (track_entries no_track + 20)) = 0"
    by (simp add: realloc_ok_def)
  have h5: "?e \<notin> set (track no_track)" "track_next no_track = track_entries no_track"
    by (simp_all add: no_track_def)
  have h6: "fst (realloc_failing () (track_entries no_track + 20)) \<noteq> 0"
    by (simp add: realloc_failing_def)
  note th1 = track_idempotent[of WT_PT_BLOCK NULL 100 10 one_block realloc_ok "()" 3
      no_track 3 "()" no_track "()", THEN conjunct1, rule_format, OF h1]
  note th2 = track_idempotent[of WT_PT_BLOCK NULL 100 10 one_block realloc_ok "()" 3
      no_track 3 "()" no_track "()", THEN conjunct2, THEN conjunct1, rule_format]
  note th3 = track_idempotent[of WT_PT_BLOCK NULL 100 10 one_block realloc_failing "()" 3
      no_track 3 "()" no_track "()", THEN conjunct2, THEN conjunct2, rule_format]
  from h2 h3 h4 have c2: "\<exists>s' m'. track_times realloc_ok () no_track WT_PT_BLOCK NULL 100 10 3 =
        (replicate 3 0, s', m') \<and>
      track m' = (if ?e \<in> set (track no_track) then track no_track else track no_track @ [?e]) \<and>
      count_list (track m') ?e = 1"
    by (intro th2) simp
  from h5 h6 have c3: "wt_rec_track realloc_failing () no_track WT_PT_BLOCK NULL 100 10 =
     (fst (realloc_failing () (track_entries no_track + 20)),
      snd (realloc_failing () (track_entries no_track + 20)), no_track)"
    by (intro th3) simp
  from h1 th1 h2 h3 h4 c2 h5 h6 c3 show ?thesis by (intro conjI) simp_all
qed

subsection \<open>Reset and reactivation of overflow records\<close>

lemma ovfl_reset_scan_map:
  "ovfl_reset_scan ts =
     map (\<lambda>t. if pt_type t = WT_PT_OVFL then t\<lparr>pt_type := WT_PT_OVFL_DISCARD\<rparr> else t) ts"
  by (induction ts) simp_all

text \<open>
  Claim C4. \<open>__wt_rec_track_ovfl_reset\<close> keeps the number of slots in use and the number
  allocated; a slot that is OverflowActive gets the kind OverflowDiscarded and keeps its
  reference, addr and size; a slot of any other kind is unchanged in all fields. The
  function has no access to the block manager: it is given the list only and returns the
  list only, so it frees nothing.
\<close>

theorem ovfl_reset_marks_active:
  "track_next (wt_rec_track_ovfl_reset m) = track_next m \<and>
   track_entries (wt_rec_track_ovfl_reset m) = track_entries m \<and>
   (\<forall>i<track_next m.
      (pt_type (track m ! i) = WT_PT_OVFL \<longrightarrow>
         track (wt_rec_track_ovfl_reset m) ! i =
           (track m ! i)\<lparr>pt_type := WT_PT_OVFL_DISCARD\<rparr>) \<and>
      (pt_type (track m ! i) \<noteq> WT_PT_OVFL \<longrightarrow>
         track (wt_rec_track_ovfl_reset m) ! i = track m ! i))"
  by (simp add: wt_rec_track_ovfl_reset_def ovfl_reset_scan_map)

theorem ovfl_reset_marks_active_witness:
  "track_next (wt_rec_track_ovfl_reset four_kinds) = 4 \<and>
   track (wt_rec_track_ovfl_reset four_kinds) ! 2 =
     \<lparr>pt_type = WT_PT_OVFL_DISCARD, pt_ref = 7, pt_addr = 100, pt_size = 10\<rparr> \<and>
   track (wt_rec_track_ovfl_reset four_kinds) ! 0 = track four_kinds ! 0 \<and>
   track (wt_rec_track_ovfl_reset four_kinds) ! 1 = track four_kinds ! 1 \<and>
   track (wt_rec_track_ovfl_reset four_kinds) ! 3 = track four_kinds ! 3"
proof -
  note th = ovfl_reset_marks_active[of four_kinds]
  note slot = th[THEN conjunct2, THEN conjunct2, rule_format]
  have ty: "pt_type (track four_kinds ! 0) \<noteq> WT_PT_OVFL"
    "pt_type (track four_kinds ! 1) \<noteq> WT_PT_OVFL"
    "pt_type (track four_kinds ! 2) = WT_PT_OVFL"
    "pt_type (track four_kinds ! 3) \<noteq> WT_PT_OVFL"
    and len: "track_next four_kinds = 4"
    and e2: "(track four_kinds ! 2)\<lparr>pt_type := WT_PT_OVFL_DISCARD\<rparr> =
      \<lparr>pt_type = WT_PT_OVFL_DISCARD, pt_ref = 7, pt_addr = 100, pt_size = 10\<rparr>"
    by (simp_all add: four_kinds_def)
  have l: "track_next (wt_rec_track_ovfl_reset four_kinds) = 4"
    using th len by simp
  have s2: "track (wt_rec_track_ovfl_reset four_kinds) ! 2 =
     \<lparr>pt_type = WT_PT_OVFL_DISCARD, pt_ref = 7, pt_addr = 100, pt_size = 10\<rparr>"
    using slot[of 2] ty len e2 by simp
  have s0: "track (wt_rec_track_ovfl_reset four_kinds) ! 0 = track four_kinds ! 0"
    using slot[of 0] ty len by simp
  have s1: "track (wt_rec_track_ovfl_reset four_kinds) ! 1 = track four_kinds ! 1"
    using slot[of 1] ty len by simp
  have s3: "track (wt_rec_track_ovfl_reset four_kinds) ! 3 = track four_kinds ! 3"
    using slot[of 3] ty len by simp
  from l s2 s0 s1 s3 show ?thesis by (intro conjI)
qed

lemma ovfl_active_scan_none:
  "\<forall>t\<in>set ts. pt_ref t \<noteq> r \<Longrightarrow> ovfl_active_scan ts r = Inr (ts, None)"
  by (induction ts) simp_all

text \<open>The scan stops at the first slot whose reference is the one looked for.\<close>

lemma ovfl_active_scan_first:
  "\<forall>x\<in>set pre. pt_ref x \<noteq> r \<Longrightarrow> pt_ref t = r \<Longrightarrow>
   ovfl_active_scan (pre @ t # post) r =
     (if pt_type t = WT_PT_OVFL_DISCARD
      then Inr (pre @ t\<lparr>pt_type := WT_PT_OVFL\<rparr> # post, Some (pt_addr t, pt_size t))
      else Inl InvariantViolation)"
  by (induction pre) (simp_all add: WT_ASSERT_def)

lemma ovfl_active_scan_cases:
  assumes "ovfl_active_scan ts r = Inr (ts', res)"
  shows "(ts' = ts \<and> res = None) \<or>
    (\<exists>pre t post. ts = pre @ t # post \<and> (\<forall>x\<in>set pre. pt_ref x \<noteq> r) \<and> pt_ref t = r \<and>
       pt_type t = WT_PT_OVFL_DISCARD \<and> ts' = pre @ t\<lparr>pt_type := WT_PT_OVFL\<rparr> # post \<and>
       res = Some (pt_addr t, pt_size t))"
proof (cases "\<exists>t\<in>set ts. pt_ref t = r")
  case False
  then have "ovfl_active_scan ts r = Inr (ts, None)"
    by (intro ovfl_active_scan_none) simp
  with assms show ?thesis by simp
next
  case True
  then obtain pre t post where
    ts: "ts = pre @ t # post" and t: "pt_ref t = r" and pre: "\<forall>x\<in>set pre. pt_ref x \<noteq> r"
    by (auto dest!: split_list_first_prop)
  from ovfl_active_scan_first[OF pre t, of post] assms ts
  have "pt_type t = WT_PT_OVFL_DISCARD \<and> ts' = pre @ t\<lparr>pt_type := WT_PT_OVFL\<rparr> # post \<and>
       res = Some (pt_addr t, pt_size t)"
    by (auto split: if_splits)
  with ts t pre show ?thesis by blast
qed

text \<open>A call that returns either changed nothing or turned one OverflowDiscarded slot.\<close>

lemma wt_rec_track_ovfl_active_cases:
  assumes "wt_rec_track_ovfl_active m r addrp sizep = Inr (rc, m', a, sz)"
  shows "m' = m \<or>
    (\<exists>pre t post. track m = pre @ t # post \<and> pt_type t = WT_PT_OVFL_DISCARD \<and>
       m' = m\<lparr>track := pre @ t\<lparr>pt_type := WT_PT_OVFL\<rparr> # post\<rparr>)"
proof (cases "r = NULL")
  case True
  with assms show ?thesis by (simp add: wt_rec_track_ovfl_active_def)
next
  case False
  with assms obtain ts' res where
    scan: "ovfl_active_scan (track m) r = Inr (ts', res)" and m': "m' = m\<lparr>track := ts'\<rparr>"
    by (auto simp: wt_rec_track_ovfl_active_def split: sum.splits option.splits prod.splits)
  from ovfl_active_scan_cases[OF scan] m' show ?thesis by auto
qed

text \<open>
  Claim C5, as stated, fails on lists it does not exclude. When an earlier slot carries
  the same reference, the reactivation finds that slot: it returns (300, 30), the slot
  at (100, 10) stays OverflowDiscarded, and the resolve calls free(100, 10) and resets
  it. When the reference is null, the reactivation finds nothing. When a Block slot is
  at (100, 10) too, the round trip keeps the overflow slot, and the resolve calls
  free(100, 10) for the Block slot.
\<close>

theorem round_trip_fails_on_other_lists:
  "\<lparr>pt_type = WT_PT_OVFL, pt_ref = 7, pt_addr = 100, pt_size = 10\<rparr>
     \<in> set (track round_trip_swapped) \<and>
   wt_rec_track_ovfl_active (wt_rec_track_ovfl_reset round_trip_swapped) 7 0 0 =
     Inr (1, swapped_reactivated, 300, 30) \<and>
   track swapped_reactivated ! 2 =
     \<lparr>pt_type = WT_PT_OVFL_DISCARD, pt_ref = 7, pt_addr = 100, pt_size = 10\<rparr> \<and>
   wt_rec_discard_track (- 1) (logged free_ok) ([], ()) swapped_reactivated =
     (0, ([(1, 10, 0), (100, 10, 0)], ()), swapped_resolved) \<and>
   track swapped_resolved ! 2 =
     \<lparr>pt_type = WT_PT_EMPTY, pt_ref = NULL, pt_addr = - 1, pt_size = 0\<rparr> \<and>
   (100, 10) \<in> set (map call_block [(1, 10, 0), (100, 10, 0)]) \<and>
   \<lparr>pt_type = WT_PT_OVFL, pt_ref = NULL, pt_addr = 100, pt_size = 10\<rparr>
     \<in> set (track null_ref_active) \<and>
   wt_rec_track_ovfl_reset null_ref_active = null_ref_discarded \<and>
   wt_rec_track_ovfl_active null_ref_discarded NULL 0 0 = Inr (0, null_ref_discarded, 0, 0) \<and>
   \<lparr>pt_type = WT_PT_OVFL, pt_ref = 7, pt_addr = 100, pt_size = 10\<rparr>
     \<in> set (track shared_block) \<and>
   wt_rec_track_ovfl_active (wt_rec_track_ovfl_reset shared_block) 7 0 0 =
     Inr (1, shared_block, 100, 10) \<and>
   wt_rec_discard_track (- 1) (logged free_ok) ([], ()) shared_block =
     (0, ([(100, 10, 0)], ()), shared_block_resolved) \<and>
   (100, 10) \<in> set (map call_block [(100, 10, 0)])"
  by (simp add: wt_rec_track_ovfl_active_def wt_rec_track_ovfl_reset_def
      wt_rec_discard_track_def discard_scan.simps(2) logged_def free_ok_def WT_ASSERT_def
      NULL_def empty_slot_def call_block_def round_trip_swapped_def swapped_reactivated_def
      swapped_resolved_def null_ref_active_def null_ref_discarded_def shared_block_def
      shared_block_resolved_def)

text \<open>
  Claim C5, amended. The round trip of reset and reactivation. The list holds an OverflowActive
  slot for the reference \<open>R\<close> at (addr 100, size 10), at position \<open>length pre\<close>; \<open>R\<close> is
  not null, no slot before it has the reference \<open>R\<close> (so it is the slot a search for
  \<open>R\<close> finds), and no other slot of the list is at (100, 10). Then after the reset the
  slot is OverflowDiscarded; the reactivation of \<open>R\<close> returns 1 (found) and hands back
  (100, 10), and the slot is OverflowActive again; and a resolve after that, with any
  block manager, leaves the slot as it is and makes no call free(100, 10).
\<close>

theorem reset_reactivate_round_trip:
  assumes "track m =
      pre @ \<lparr>pt_type = WT_PT_OVFL, pt_ref = R, pt_addr = 100, pt_size = 10\<rparr> # post"
    and "R \<noteq> NULL"
    and "\<forall>t\<in>set pre. pt_ref t \<noteq> R"
    and "\<forall>t\<in>set (pre @ post). block_of t \<noteq> (100, 10)"
  shows "\<exists>m2.
     track (wt_rec_track_ovfl_reset m) ! length pre =
       \<lparr>pt_type = WT_PT_OVFL_DISCARD, pt_ref = R, pt_addr = 100, pt_size = 10\<rparr> \<and>
     wt_rec_track_ovfl_active (wt_rec_track_ovfl_reset m) R addrp sizep =
       Inr (1, m2, 100, 10) \<and>
     track m2 ! length pre =
       \<lparr>pt_type = WT_PT_OVFL, pt_ref = R, pt_addr = 100, pt_size = 10\<rparr> \<and>
     (\<forall>ai (bf :: 's \<Rightarrow> u32 \<Rightarrow> u32 \<Rightarrow> int \<times> 's) s rc lg s' m3.
        wt_rec_discard_track ai (logged bf) ([], s) m2 = (rc, (lg, s'), m3) \<longrightarrow>
          track m3 ! length pre =
            \<lparr>pt_type = WT_PT_OVFL, pt_ref = R, pt_addr = 100, pt_size = 10\<rparr> \<and>
          (100, 10) \<notin> set (map call_block lg))"
proof -
  let ?e = "\<lparr>pt_type = WT_PT_OVFL, pt_ref = R, pt_addr = 100, pt_size = 10\<rparr>"
  let ?d = "\<lparr>pt_type = WT_PT_OVFL_DISCARD, pt_ref = R, pt_addr = 100, pt_size = 10\<rparr>"
  let ?m1 = "wt_rec_track_ovfl_reset m"
  define pre1 where "pre1 = ovfl_reset_scan pre"
  define post1 where "post1 = ovfl_reset_scan post"
  define m2 where "m2 = ?m1\<lparr>track := pre1 @ ?e # post1\<rparr>"
  have len: "length pre1 = length pre"
    by (simp add: pre1_def ovfl_reset_scan_map)
  have t1: "track ?m1 = pre1 @ ?d # post1"
    using assms(1)
    by (simp add: wt_rec_track_ovfl_reset_def ovfl_reset_scan_map pre1_def post1_def)
  have refs: "\<forall>x\<in>set pre1. pt_ref x \<noteq> R"
    using assms(3) by (auto simp: pre1_def ovfl_reset_scan_map)
  have blocks: "\<forall>x\<in>set (pre1 @ post1). block_of x \<noteq> (100, 10)"
    using assms(4) by (auto simp: pre1_def post1_def ovfl_reset_scan_map block_of_def)
  have a: "track ?m1 ! length pre = ?d"
    using t1 len by (simp add: nth_append)
  have b: "wt_rec_track_ovfl_active ?m1 R addrp sizep = Inr (1, m2, 100, 10)"
    using assms(2) ovfl_active_scan_first[OF refs, of ?d post1]
    by (simp add: wt_rec_track_ovfl_active_def t1 m2_def)
  have t2: "track m2 = pre1 @ ?e # post1"
    by (simp add: m2_def)
  have c: "track m2 ! length pre = ?e"
    using t2 len by (simp add: nth_append)
  have d: "track m3 ! length pre = ?e \<and> (100, 10) \<notin> set (map call_block lg)"
    if res: "wt_rec_discard_track ai (logged bf) ([], s) m2 = (rc, (lg, s'), m3)"
    for ai and bf :: "'s \<Rightarrow> u32 \<Rightarrow> u32 \<Rightarrow> int \<times> 's" and s rc lg s' m3
  proof -
    from discard_track_logged[OF res] obtain k where
      k: "k \<le> track_next m2"
      and tm3: "track m3 = map (resolved ai) (take k (track m2)) @ drop k (track m2)"
      and pfx: "prefix (map call_block lg) (map block_of (filter freeable (track m2)))"
      by blast
    have i: "length pre < track_next m2" by (simp add: t2 len)
    have "\<not> freeable ?e" by (simp add: freeable_iff)
    with nth_resolved_upto[OF k i, of "resolved ai"] c
    have kept: "track m3 ! length pre = ?e"
      by (simp add: tm3 resolved_def)
    have "(100, 10) \<notin> set (map block_of (filter freeable (track m2)))"
      using blocks by (auto simp: t2 freeable_iff)
    with pfx have "(100, 10) \<notin> set (map call_block lg)"
      using set_mono_prefix by blast
    with kept show ?thesis by simp
  qed
  from a b c d show ?thesis by blast
qed

theorem reset_reactivate_round_trip_witness:
  "track round_trip =
     [\<lparr>pt_type = WT_PT_BLOCK, pt_ref = NULL, pt_addr = 1, pt_size = 10\<rparr>] @
     \<lparr>pt_type = WT_PT_OVFL, pt_ref = 7, pt_addr = 100, pt_size = 10\<rparr> #
     [\<lparr>pt_type = WT_PT_OVFL, pt_ref = 7, pt_addr = 300, pt_size = 30\<rparr>] \<and>
   (7 :: ptr) \<noteq> NULL \<and>
   pt_ref \<lparr>pt_type = WT_PT_BLOCK, pt_ref = NULL, pt_addr = 1, pt_size = 10\<rparr> \<noteq> 7 \<and>
   block_of \<lparr>pt_type = WT_PT_BLOCK, pt_ref = NULL, pt_addr = 1, pt_size = 10\<rparr> \<noteq> (100, 10) \<and>
   block_of \<lparr>pt_type = WT_PT_OVFL, pt_ref = 7, pt_addr = 300, pt_size = 30\<rparr> \<noteq> (100, 10) \<and>
   (\<exists>m2.
     track (wt_rec_track_ovfl_reset round_trip) ! 1 =
       \<lparr>pt_type = WT_PT_OVFL_DISCARD, pt_ref = 7, pt_addr = 100, pt_size = 10\<rparr> \<and>
     wt_rec_track_ovfl_active (wt_rec_track_ovfl_reset round_trip) 7 0 0 =
       Inr (1, m2, 100, 10) \<and>
     track m2 ! 1 = \<lparr>pt_type = WT_PT_OVFL, pt_ref = 7, pt_addr = 100, pt_size = 10\<rparr> \<and>
     (\<forall>ai (bf :: unit \<Rightarrow> u32 \<Rightarrow> u32 \<Rightarrow> int \<times> unit) s rc lg s' m3.
        wt_rec_discard_track ai (logged bf) ([], s) m2 = (rc, (lg, s'), m3) \<longrightarrow>
          track m3 ! 1 = \<lparr>pt_type = WT_PT_OVFL, pt_ref = 7, pt_addr = 100, pt_size = 10\<rparr> \<and>
          (100, 10) \<notin> set (map call_block lg)))"
proof -
  let ?b = "\<lparr>pt_type = WT_PT_BLOCK, pt_ref = NULL, pt_addr = 1, pt_size = 10\<rparr>"
  let ?p = "\<lparr>pt_type = WT_PT_OVFL, pt_ref = 7, pt_addr = 300, pt_size = 30\<rparr>"
  have h1: "track round_trip =
     [?b] @ \<lparr>pt_type = WT_PT_OVFL, pt_ref = 7, pt_addr = 100, pt_size = 10\<rparr> # [?p]"
    by (simp add: round_trip_def)
  have h2: "(7 :: ptr) \<noteq> NULL"
    by (simp add: NULL_def)
  have r: "pt_ref ?b \<noteq> 7"
    by (simp add: NULL_def)
  have b1: "block_of ?b \<noteq> (100, 10)" and b2: "block_of ?p \<noteq> (100, 10)"
    by (simp_all add: block_of_def)
  from r have h3: "\<forall>t\<in>set [?b]. pt_ref t \<noteq> 7" by simp
  from b1 b2 have h4: "\<forall>t\<in>set ([?b] @ [?p]). block_of t \<noteq> (100, 10)" by simp
  from reset_reactivate_round_trip[OF h1 h2 h3 h4, of 0 0, where 's = unit]
  have c: "\<exists>m2.
     track (wt_rec_track_ovfl_reset round_trip) ! 1 =
       \<lparr>pt_type = WT_PT_OVFL_DISCARD, pt_ref = 7, pt_addr = 100, pt_size = 10\<rparr> \<and>
     wt_rec_track_ovfl_active (wt_rec_track_ovfl_reset round_trip) 7 0 0 =
       Inr (1, m2, 100, 10) \<and>
     track m2 ! 1 = \<lparr>pt_type = WT_PT_OVFL, pt_ref = 7, pt_addr = 100, pt_size = 10\<rparr> \<and>
     (\<forall>ai (bf :: unit \<Rightarrow> u32 \<Rightarrow> u32 \<Rightarrow> int \<times> unit) s rc lg s' m3.
        wt_rec_discard_track ai (logged bf) ([], s) m2 = (rc, (lg, s'), m3) \<longrightarrow>
          track m3 ! 1 = \<lparr>pt_type = WT_PT_OVFL, pt_ref = 7, pt_addr = 100, pt_size = 10\<rparr> \<and>
          (100, 10) \<notin> set (map call_block lg))"
    by simp
  from h1 h2 r b1 b2 c show ?thesis by (intro conjI)
qed

text \<open>
  Claim C6. When the reference is not null and the first slot with that reference is not
  OverflowDiscarded (it may be OverflowActive, Block or Empty), the assertion of
  \<open>__wt_rec_track_ovfl_active\<close> fails: the call ends in the fatal invariant violation
  and returns nothing. The slots after the first match play no part.
\<close>

theorem ovfl_active_assertion:
  assumes "orig_data \<noteq> NULL"
    and "track m = pre @ t # post"
    and "\<forall>x\<in>set pre. pt_ref x \<noteq> orig_data"
    and "pt_ref t = orig_data"
    and "pt_type t \<noteq> WT_PT_OVFL_DISCARD"
  shows "wt_rec_track_ovfl_active m orig_data addrp sizep = Inl InvariantViolation"
  using assms by (simp add: wt_rec_track_ovfl_active_def ovfl_active_scan_first)

theorem ovfl_active_assertion_witness:
  "(7 :: ptr) \<noteq> NULL \<and>
   track round_trip =
     [\<lparr>pt_type = WT_PT_BLOCK, pt_ref = NULL, pt_addr = 1, pt_size = 10\<rparr>] @
     \<lparr>pt_type = WT_PT_OVFL, pt_ref = 7, pt_addr = 100, pt_size = 10\<rparr> #
     [\<lparr>pt_type = WT_PT_OVFL, pt_ref = 7, pt_addr = 300, pt_size = 30\<rparr>] \<and>
   pt_ref \<lparr>pt_type = WT_PT_BLOCK, pt_ref = NULL, pt_addr = 1, pt_size = 10\<rparr> \<noteq> 7 \<and>
   pt_type \<lparr>pt_type = WT_PT_OVFL, pt_ref = 7, pt_addr = 100, pt_size = 10\<rparr>
     \<noteq> WT_PT_OVFL_DISCARD \<and>
   wt_rec_track_ovfl_active round_trip 7 0 0 = Inl InvariantViolation"
proof -
  let ?b = "\<lparr>pt_type = WT_PT_BLOCK, pt_ref = NULL, pt_addr = 1, pt_size = 10\<rparr>"
  let ?e = "\<lparr>pt_type = WT_PT_OVFL, pt_ref = 7, pt_addr = 100, pt_size = 10\<rparr>"
  let ?p = "\<lparr>pt_type = WT_PT_OVFL, pt_ref = 7, pt_addr = 300, pt_size = 30\<rparr>"
  have h1: "(7 :: ptr) \<noteq> NULL"
    by (simp add: NULL_def)
  have h2: "track round_trip = [?b] @ ?e # [?p]"
    by (simp add: round_trip_def)
  have r: "pt_ref ?b \<noteq> 7"
    by (simp add: NULL_def)
  then have h3: "\<forall>x\<in>set [?b]. pt_ref x \<noteq> 7" by simp
  have h4: "pt_ref ?e = 7" by simp
  have h5: "pt_type ?e \<noteq> WT_PT_OVFL_DISCARD" by simp
  from ovfl_active_assertion[OF h1 h2 h3 h4 h5, of 0 0]
  have c: "wt_rec_track_ovfl_active round_trip 7 0 0 = Inl InvariantViolation" .
  from h1 h2 r h5 c show ?thesis by (intro conjI)
qed

text \<open>
  Claim C9. \<open>__wt_rec_track_ovfl_active\<close> returns 0 (not found) when the reference is
  null, and when no slot of the list has the reference. In both cases the list is
  returned as it was given, every slot with its kind, addr and size, and the caller's two
  output locations keep the values they had: no addr/size pair is handed back.
\<close>

theorem ovfl_active_not_found:
  "orig_data = NULL \<or> (\<forall>t\<in>set (track m). pt_ref t \<noteq> orig_data) \<Longrightarrow>
   wt_rec_track_ovfl_active m orig_data addrp sizep = Inr (0, m, addrp, sizep)"
  by (auto simp: wt_rec_track_ovfl_active_def ovfl_active_scan_none)

theorem ovfl_active_not_found_witness:
  "wt_rec_track_ovfl_active four_kinds NULL 5 6 = Inr (0, four_kinds, 5, 6) \<and>
   (9 :: ptr) \<noteq> NULL \<and>
   9 \<notin> pt_ref ` set (track four_kinds) \<and>
   wt_rec_track_ovfl_active four_kinds 9 5 6 = Inr (0, four_kinds, 5, 6)"
proof -
  have c1: "wt_rec_track_ovfl_active four_kinds NULL 5 6 = Inr (0, four_kinds, 5, 6)"
    by (rule ovfl_active_not_found) simp
  have n: "(9 :: ptr) \<noteq> NULL"
    by (simp add: NULL_def)
  have h: "9 \<notin> pt_ref ` set (track four_kinds)"
    by (simp add: four_kinds_def NULL_def)
  then have "\<forall>t\<in>set (track four_kinds). pt_ref t \<noteq> 9"
    by auto
  then have c2: "wt_rec_track_ovfl_active four_kinds 9 5 6 = Inr (0, four_kinds, 5, 6)"
    by (intro ovfl_active_not_found) simp
  from c1 n h c2 show ?thesis by (intro conjI)
qed



subsection \<open>Runs of calls\<close>

text \<open>A Block slot stays where it is and as it is through every call but a resolve.\<close>

lemma step_keeps_block:
  assumes "step realloc bf ai (s, m) op = Inr (s', m')"
    and "op \<noteq> Rec_Discard_Track"
    and "i < track_next m"
    and "pt_type (track m ! i) = WT_PT_BLOCK"
  shows "i < track_next m' \<and> track m' ! i = track m ! i"
proof (cases op)
  case (Rec_Track ty r a sz)
  with assms(1) obtain rc where "wt_rec_track realloc s m ty r a sz = (rc, s', m')"
    by (auto split: prod.splits)
  from wt_rec_track_cases[OF this] assms(3) show ?thesis
    by (auto simp: nth_append)
next
  case Rec_Track_Ovfl_Reset
  with assms show ?thesis
    by (auto simp: wt_rec_track_ovfl_reset_def ovfl_reset_scan_map)
next
  case (Rec_Track_Ovfl_Active r)
  with assms(1) obtain rc a sz where
    "wt_rec_track_ovfl_active m r 0 0 = Inr (rc, m', a, sz)"
    by (auto split: sum.splits prod.splits)
  from wt_rec_track_ovfl_active_cases[OF this] show ?thesis
  proof
    assume "m' = m"
    with assms(3) show ?thesis by simp
  next
    assume "\<exists>pre t post. track m = pre @ t # post \<and> pt_type t = WT_PT_OVFL_DISCARD \<and>
       m' = m\<lparr>track := pre @ t\<lparr>pt_type := WT_PT_OVFL\<rparr> # post\<rparr>"
    then obtain pre t post where
      *: "track m = pre @ t # post" "pt_type t = WT_PT_OVFL_DISCARD"
      "m' = m\<lparr>track := pre @ t\<lparr>pt_type := WT_PT_OVFL\<rparr> # post\<rparr>" by blast
    with assms(3,4) show ?thesis
      by (auto simp: nth_append nth_Cons split: nat.splits if_splits)
  qed
next
  case Rec_Discard_Track
  with assms(2) show ?thesis by simp
qed

lemma run_keeps_block:
  assumes "run realloc bf ai (s, m) ops = Inr (s', m')"
    and "Rec_Discard_Track \<notin> set ops"
    and "i < track_next m"
    and "pt_type (track m ! i) = WT_PT_BLOCK"
  shows "i < track_next m' \<and> track m' ! i = track m ! i"
  using assms
proof (induction ops arbitrary: s m)
  case Nil
  then show ?case by simp
next
  case (Cons op ops)
  from Cons.prems(1) obtain s1 m1 where
    st: "step realloc bf ai (s, m) op = Inr (s1, m1)"
    and rest: "run realloc bf ai (s1, m1) ops = Inr (s', m')"
    by (auto split: sum.splits)
  from Cons.prems(2) have op: "op \<noteq> Rec_Discard_Track" and ops: "Rec_Discard_Track \<notin> set ops"
    by auto
  from step_keeps_block[OF st op Cons.prems(3,4)]
  have 1: "i < track_next m1" "track m1 ! i = track m ! i" by simp_all
  with Cons.prems(4) have "pt_type (track m1 ! i) = WT_PT_BLOCK" by simp
  from Cons.IH[OF rest ops 1(1) this] 1(2) show ?case by simp
qed

lemma ovfl_active_no_match:
  "r = NULL \<or> (\<forall>t\<in>set (track m). pt_ref t \<noteq> r) \<Longrightarrow>
   wt_rec_track_ovfl_active m r addrp sizep = Inr (0, m, addrp, sizep)"
  by (auto simp: wt_rec_track_ovfl_active_def ovfl_active_scan_none)

text \<open>Reactivations that match no slot return and leave the list as it is.\<close>

lemma run_no_match:
  "\<forall>op\<in>set ops. \<exists>r. op = Rec_Track_Ovfl_Active r \<and>
      (r = NULL \<or> (\<forall>t\<in>set (track m). pt_ref t \<noteq> r)) \<Longrightarrow>
   run realloc bf ai (s, m) ops = Inr (s, m)"
proof (induction ops)
  case Nil
  then show ?case by simp
next
  case (Cons op ops)
  then obtain r where "op = Rec_Track_Ovfl_Active r"
    "r = NULL \<or> (\<forall>t\<in>set (track m). pt_ref t \<noteq> r)" by auto
  with ovfl_active_no_match[of r m 0 0] have "step realloc bf ai (s, m) op = Inr (s, m)"
    by simp
  with Cons show ?case by simp
qed

text \<open>What a resolve does to a Block slot at position \<open>i\<close>.\<close>

lemma discard_track_block_slot:
  assumes res: "wt_rec_discard_track ai (logged bf) ([], s) m = (rc, (lg, s'), m')"
    and i: "i < track_next m"
    and b: "track m ! i = \<lparr>pt_type = WT_PT_BLOCK, pt_ref = r, pt_addr = a, pt_size = sz\<rparr>"
  shows "((track m' ! i = \<lparr>pt_type = WT_PT_EMPTY, pt_ref = NULL, pt_addr = ai, pt_size = 0\<rparr> \<and>
           (a, sz, 0) \<in> set lg) \<or>
          (rc \<noteq> 0 \<and> track m' ! i = track m ! i \<and> lg \<noteq> [] \<and>
           (\<exists>k\<le>i. freeable (track m ! k) \<and>
              last lg = (pt_addr (track m ! k), pt_size (track m ! k), rc)))) \<and>
         ((\<forall>st x y. fst (bf st x y) = 0) \<longrightarrow>
            rc = 0 \<and>
            track m' ! i = \<lparr>pt_type = WT_PT_EMPTY, pt_ref = NULL, pt_addr = ai, pt_size = 0\<rparr> \<and>
            (a, sz, 0) \<in> set lg)"
proof -
  let ?b = "\<lparr>pt_type = WT_PT_BLOCK, pt_ref = r, pt_addr = a, pt_size = sz\<rparr>"
  from discard_track_shape[OF res] obtain k where
    k: "k \<le> track_next m"
    and tm': "track m' = map (resolved ai) (take k (track m)) @ drop k (track m)"
    and lg: "lg = map freed (filter freeable (take k (track m))) @
             (if k < track_next m
              then [(pt_addr (track m ! k), pt_size (track m ! k), rc)] else [])"
    and stop: "k < track_next m \<longrightarrow> rc \<noteq> 0 \<and> freeable (track m ! k)"
    and fin: "k = track_next m \<longrightarrow> rc = 0"
    by blast
  have fr: "freeable ?b" by (simp add: freeable_iff)
  have nth: "track m' ! i = (if i < k then resolved ai (track m ! i) else track m ! i)"
    using nth_resolved_upto[OF k i, of "resolved ai"] by (simp add: tm')
  have swept: "track m' ! i = \<lparr>pt_type = WT_PT_EMPTY, pt_ref = NULL, pt_addr = ai, pt_size = 0\<rparr> \<and>
      (a, sz, 0) \<in> set lg" if "i < k"
  proof -
    from that nth b fr have "track m' ! i = empty_slot ai"
      by (simp add: resolved_def)
    moreover from that i b have "?b \<in> set (take k (track m))"
      by (auto simp: in_set_conv_nth intro!: exI[of _ i])
    with fr have "freed ?b \<in> set lg"
      by (simp add: lg)
    ultimately show ?thesis by (simp add: empty_slot_def freed_def)
  qed
  have first: "(track m' ! i = \<lparr>pt_type = WT_PT_EMPTY, pt_ref = NULL, pt_addr = ai, pt_size = 0\<rparr> \<and>
           (a, sz, 0) \<in> set lg) \<or>
          (rc \<noteq> 0 \<and> track m' ! i = track m ! i \<and> lg \<noteq> [] \<and>
           (\<exists>k\<le>i. freeable (track m ! k) \<and>
              last lg = (pt_addr (track m ! k), pt_size (track m ! k), rc)))"
  proof (cases "i < k")
    case True
    with swept show ?thesis by simp
  next
    case False
    with i have kn: "k < track_next m" and ki: "k \<le> i" by simp_all
    from kn stop have st: "rc \<noteq> 0" "freeable (track m ! k)" by simp_all
    from kn lg have l1: "lg \<noteq> []"
      and l2: "last lg = (pt_addr (track m ! k), pt_size (track m ! k), rc)"
      by simp_all
    from False nth have same: "track m' ! i = track m ! i" by simp
    from ki st(2) l2 have "\<exists>k\<le>i. freeable (track m ! k) \<and>
        last lg = (pt_addr (track m ! k), pt_size (track m ! k), rc)"
      by (intro exI[of _ k]) simp
    with st(1) same l1 show ?thesis by simp
  qed
  have second: "rc = 0 \<and>
      track m' ! i = \<lparr>pt_type = WT_PT_EMPTY, pt_ref = NULL, pt_addr = ai, pt_size = 0\<rparr> \<and>
      (a, sz, 0) \<in> set lg" if "\<forall>st x y. fst (bf st x y) = 0"
  proof -
    from discard_track_never_fails[OF that res] have rc: "rc = 0" .
    with stop k have "k = track_next m" by auto
    with i swept rc show ?thesis by simp
  qed
  from first second show ?thesis by blast
qed

text \<open>
  Claim C8, as stated, fails when a call of free fails at or before the Block slot. A
  Block tuple is registered after an OverflowDiscarded slot; a reactivation that matches
  nothing is made; the next resolve, with a block manager whose first call fails with
  code 5, returns 5 at the first slot. The Block slot is still a Block slot and free has
  not been called for it.
\<close>

theorem block_not_swept_after_failure:
  "wt_rec_track realloc_ok () discarded_only WT_PT_BLOCK NULL 100 10 =
     (0, (), discarded_then_block) \<and>
   run realloc_ok free_ok (- 1) ((), discarded_then_block) [Rec_Track_Ovfl_Active 9] =
     Inr ((), discarded_then_block) \<and>
   wt_rec_discard_track (- 1) (logged (free_failing_at 0)) ([], 0) discarded_then_block =
     (5, ([(200, 20, 5)], 1), discarded_then_block) \<and>
   track discarded_then_block ! 1 =
     \<lparr>pt_type = WT_PT_BLOCK, pt_ref = NULL, pt_addr = 100, pt_size = 10\<rparr> \<and>
   (100, 10) \<notin> set (map call_block [(200, 20, 5)])"
  by (simp add: wt_rec_track_def wt_rec_track_ovfl_active_def wt_rec_discard_track_def
      discard_scan.simps(2) logged_def realloc_ok_def free_failing_at_def NULL_def
      call_block_def discarded_only_def discarded_then_block_def)

text \<open>
  Claim C8, amended. A Block slot is swept by the next resolve whatever is called in
  between, unless a call of free fails at or before it. A Block tuple is registered, on
  any list on which the registration can store it; it returns 0 and the tuple is in a
  slot \<open>i\<close>. Then any calls that are not a resolve are
  made: reactivations of any references, resets, further registrations. Reactivations
  that match no slot always return and change nothing; and whenever the calls return,
  the slot \<open>i\<close> is still the same Block slot: no reactivation has made it
  OverflowActive. The resolve that follows calls free on the slot's addr and size and
  resets the slot to Empty; the one exception is a call of free that fails at or before
  the slot, which ends the resolve with that error and leaves the slot as it was (claim
  C2). With a block manager none of whose calls fails, the resolve returns 0 and the
  slot has been freed and reset.
\<close>

theorem block_always_swept:
  fixes bf :: "'s \<Rightarrow> u32 \<Rightarrow> u32 \<Rightarrow> int \<times> 's"
  assumes "\<lparr>pt_type = WT_PT_BLOCK, pt_ref = r, pt_addr = a, pt_size = sz\<rparr> \<in> set (track m0) \<or>
      track_next m0 \<noteq> track_entries m0 \<or> fst (realloc s0 (track_entries m0 + 20)) = 0"
    and "Rec_Discard_Track \<notin> set ops"
  shows "\<exists>s1 m1 i.
     wt_rec_track realloc s0 m0 WT_PT_BLOCK r a sz = (0, s1, m1) \<and>
     i < track_next m1 \<and>
     track m1 ! i = \<lparr>pt_type = WT_PT_BLOCK, pt_ref = r, pt_addr = a, pt_size = sz\<rparr> \<and>
     (\<forall>s2 m2. run realloc bf ai (s1, m1) ops = Inr (s2, m2) \<longrightarrow>
        i < track_next m2 \<and>
        track m2 ! i = \<lparr>pt_type = WT_PT_BLOCK, pt_ref = r, pt_addr = a, pt_size = sz\<rparr> \<and>
        (\<forall>rc lg s3 m3.
           wt_rec_discard_track ai (logged bf) ([], s2) m2 = (rc, (lg, s3), m3) \<longrightarrow>
             ((track m3 ! i =
                 \<lparr>pt_type = WT_PT_EMPTY, pt_ref = NULL, pt_addr = ai, pt_size = 0\<rparr> \<and>
               (a, sz, 0) \<in> set lg) \<or>
              (rc \<noteq> 0 \<and> track m3 ! i = track m2 ! i \<and> lg \<noteq> [] \<and>
               (\<exists>k\<le>i. freeable (track m2 ! k) \<and>
                  last lg = (pt_addr (track m2 ! k), pt_size (track m2 ! k), rc)))) \<and>
             ((\<forall>st x y. fst (bf st x y) = 0) \<longrightarrow>
                rc = 0 \<and>
                track m3 ! i =
                  \<lparr>pt_type = WT_PT_EMPTY, pt_ref = NULL, pt_addr = ai, pt_size = 0\<rparr> \<and>
                (a, sz, 0) \<in> set lg))) \<and>
     ((\<forall>op\<in>set ops. \<exists>r'. op = Rec_Track_Ovfl_Active r' \<and>
          (r' = NULL \<or> (\<forall>t\<in>set (track m1). pt_ref t \<noteq> r'))) \<longrightarrow>
        run realloc bf ai (s1, m1) ops = Inr (s1, m1))"
proof -
  let ?b = "\<lparr>pt_type = WT_PT_BLOCK, pt_ref = r, pt_addr = a, pt_size = sz\<rparr>"
  from wt_rec_track_stores[where realloc=realloc and s=s0, OF assms(1)] obtain s1 m1 where
    reg: "wt_rec_track realloc s0 m0 WT_PT_BLOCK r a sz = (0, s1, m1)"
    and tm1: "track m1 = (if ?b \<in> set (track m0) then track m0 else track m0 @ [?b])"
    by blast
  then have "?b \<in> set (track m1)" by simp
  then obtain i where i: "i < track_next m1" "track m1 ! i = ?b"
    by (auto simp: in_set_conv_nth)
  then have ty: "pt_type (track m1 ! i) = WT_PT_BLOCK" by simp
  have after: "i < track_next m2 \<and> track m2 ! i = ?b \<and>
        (\<forall>rc lg s3 m3.
           wt_rec_discard_track ai (logged bf) ([], s2) m2 = (rc, (lg, s3), m3) \<longrightarrow>
             ((track m3 ! i =
                 \<lparr>pt_type = WT_PT_EMPTY, pt_ref = NULL, pt_addr = ai, pt_size = 0\<rparr> \<and>
               (a, sz, 0) \<in> set lg) \<or>
              (rc \<noteq> 0 \<and> track m3 ! i = track m2 ! i \<and> lg \<noteq> [] \<and>
               (\<exists>k\<le>i. freeable (track m2 ! k) \<and>
                  last lg = (pt_addr (track m2 ! k), pt_size (track m2 ! k), rc)))) \<and>
             ((\<forall>st x y. fst (bf st x y) = 0) \<longrightarrow>
                rc = 0 \<and>
                track m3 ! i =
                  \<lparr>pt_type = WT_PT_EMPTY, pt_ref = NULL, pt_addr = ai, pt_size = 0\<rparr> \<and>
                (a, sz, 0) \<in> set lg))"
    if run: "run realloc bf ai (s1, m1) ops = Inr (s2, m2)" for s2 m2
  proof -
    from run_keeps_block[OF run assms(2) i(1) ty] i(2)
    have i2: "i < track_next m2" "track m2 ! i = ?b" by simp_all
    show ?thesis
    proof (intro conjI allI impI)
      show "i < track_next m2" by (rule i2(1))
      show "track m2 ! i = ?b" by (rule i2(2))
    next
      fix rc lg s3 m3
      assume res: "wt_rec_discard_track ai (logged bf) ([], s2) m2 = (rc, (lg, s3), m3)"
      from discard_track_block_slot[OF res i2]
      show "(track m3 ! i =
                 \<lparr>pt_type = WT_PT_EMPTY, pt_ref = NULL, pt_addr = ai, pt_size = 0\<rparr> \<and>
               (a, sz, 0) \<in> set lg) \<or>
              (rc \<noteq> 0 \<and> track m3 ! i = track m2 ! i \<and> lg \<noteq> [] \<and>
               (\<exists>k\<le>i. freeable (track m2 ! k) \<and>
                  last lg = (pt_addr (track m2 ! k), pt_size (track m2 ! k), rc)))"
        by (rule conjunct1)
    next
      fix rc lg s3 m3
      assume res: "wt_rec_discard_track ai (logged bf) ([], s2) m2 = (rc, (lg, s3), m3)"
        and ok: "\<forall>st x y. fst (bf st x y) = 0"
      from discard_track_block_slot[OF res i2, THEN conjunct2, THEN mp, OF ok]
      have *: "rc = 0 \<and>
          track m3 ! i = \<lparr>pt_type = WT_PT_EMPTY, pt_ref = NULL, pt_addr = ai, pt_size = 0\<rparr> \<and>
          (a, sz, 0) \<in> set lg" .
      from * show "rc = 0" by simp
      from * show "track m3 ! i =
          \<lparr>pt_type = WT_PT_EMPTY, pt_ref = NULL, pt_addr = ai, pt_size = 0\<rparr>" by simp
      from * show "(a, sz, 0) \<in> set lg" by simp
    qed
  qed
  have quiet: "run realloc bf ai (s1, m1) ops = Inr (s1, m1)"
    if "\<forall>op\<in>set ops. \<exists>r'. op = Rec_Track_Ovfl_Active r' \<and>
          (r' = NULL \<or> (\<forall>t\<in>set (track m1). pt_ref t \<noteq> r'))"
    using that by (rule run_no_match)
  have A: "\<forall>s2 m2. run realloc bf ai (s1, m1) ops = Inr (s2, m2) \<longrightarrow>
        i < track_next m2 \<and> track m2 ! i = ?b \<and>
        (\<forall>rc lg s3 m3.
           wt_rec_discard_track ai (logged bf) ([], s2) m2 = (rc, (lg, s3), m3) \<longrightarrow>
             ((track m3 ! i =
                 \<lparr>pt_type = WT_PT_EMPTY, pt_ref = NULL, pt_addr = ai, pt_size = 0\<rparr> \<and>
               (a, sz, 0) \<in> set lg) \<or>
              (rc \<noteq> 0 \<and> track m3 ! i = track m2 ! i \<and> lg \<noteq> [] \<and>
               (\<exists>k\<le>i. freeable (track m2 ! k) \<and>
                  last lg = (pt_addr (track m2 ! k), pt_size (track m2 ! k), rc)))) \<and>
             ((\<forall>st x y. fst (bf st x y) = 0) \<longrightarrow>
                rc = 0 \<and>
                track m3 ! i =
                  \<lparr>pt_type = WT_PT_EMPTY, pt_ref = NULL, pt_addr = ai, pt_size = 0\<rparr> \<and>
                (a, sz, 0) \<in> set lg))"
  proof (intro allI impI)
    fix s2 m2
    assume "run realloc bf ai (s1, m1) ops = Inr (s2, m2)"
    then show "i < track_next m2 \<and> track m2 ! i = ?b \<and>
        (\<forall>rc lg s3 m3.
           wt_rec_discard_track ai (logged bf) ([], s2) m2 = (rc, (lg, s3), m3) \<longrightarrow>
             ((track m3 ! i =
                 \<lparr>pt_type = WT_PT_EMPTY, pt_ref = NULL, pt_addr = ai, pt_size = 0\<rparr> \<and>
               (a, sz, 0) \<in> set lg) \<or>
              (rc \<noteq> 0 \<and> track m3 ! i = track m2 ! i \<and> lg \<noteq> [] \<and>
               (\<exists>k\<le>i. freeable (track m2 ! k) \<and>
                  last lg = (pt_addr (track m2 ! k), pt_size (track m2 ! k), rc)))) \<and>
             ((\<forall>st x y. fst (bf st x y) = 0) \<longrightarrow>
                rc = 0 \<and>
                track m3 ! i =
                  \<lparr>pt_type = WT_PT_EMPTY, pt_ref = NULL, pt_addr = ai, pt_size = 0\<rparr> \<and>
                (a, sz, 0) \<in> set lg))"
      by (rule after)
  qed
  have B: "(\<forall>op\<in>set ops. \<exists>r'. op = Rec_Track_Ovfl_Active r' \<and>
          (r' = NULL \<or> (\<forall>t\<in>set (track m1). pt_ref t \<noteq> r'))) \<longrightarrow>
        run realloc bf ai (s1, m1) ops = Inr (s1, m1)"
    using quiet by (intro impI)
  show ?thesis
    by (intro exI[of _ s1] exI[of _ m1] exI[of _ i] conjI) (fact reg i A B)+
qed

theorem block_always_swept_witness:
  "fst (realloc_ok () (track_entries no_track + 20)) = 0 \<and>
   Rec_Discard_Track \<notin>
     set [Rec_Track WT_PT_OVFL_DISCARD 7 200 20, Rec_Track_Ovfl_Active 7, Rec_Track_Ovfl_Active 9] \<and>
   wt_rec_track realloc_ok () no_track WT_PT_BLOCK NULL 100 10 = (0, (), one_block) \<and>
   run realloc_ok free_ok (- 1) ((), one_block)
     [Rec_Track WT_PT_OVFL_DISCARD 7 200 20, Rec_Track_Ovfl_Active 7, Rec_Track_Ovfl_Active 9] =
     Inr ((), block_and_active) \<and>
   wt_rec_discard_track (- 1) (logged free_ok) ([], ()) block_and_active =
     (0, ([(100, 10, 0)], ()), block_swept) \<and>
   (\<forall>st x y. fst (free_ok st x y) = 0) \<and>
   track block_and_active ! 0 =
     \<lparr>pt_type = WT_PT_BLOCK, pt_ref = NULL, pt_addr = 100, pt_size = 10\<rparr> \<and>
   track block_swept ! 0 =
     \<lparr>pt_type = WT_PT_EMPTY, pt_ref = NULL, pt_addr = - 1, pt_size = 0\<rparr> \<and>
   (100, 10, 0) \<in> set [(100 :: u32, 10 :: u32, 0 :: int)] \<and>
   run realloc_ok free_ok (- 1) ((), one_block)
     [Rec_Track_Ovfl_Active 9, Rec_Track_Ovfl_Active NULL] = Inr ((), one_block)"
proof -
  let ?b = "\<lparr>pt_type = WT_PT_BLOCK, pt_ref = NULL, pt_addr = 100, pt_size = 10\<rparr>"
  let ?ops = "[Rec_Track WT_PT_OVFL_DISCARD 7 200 20, Rec_Track_Ovfl_Active 7,
    Rec_Track_Ovfl_Active 9]"
  let ?quiet = "[Rec_Track_Ovfl_Active 9, Rec_Track_Ovfl_Active NULL]"
  have h1: "fst (realloc_ok () (track_entries no_track + 20)) = 0"
    by (simp add: realloc_ok_def)
  then have h1': "?b \<in> set (track no_track) \<or> track_next no_track \<noteq> track_entries no_track \<or>
      fst (realloc_ok () (track_entries no_track + 20)) = 0"
    by simp
  have h2: "Rec_Discard_Track \<notin> set ?ops" and h2': "Rec_Discard_Track \<notin> set ?quiet"
    by simp_all
  have reg: "wt_rec_track realloc_ok () no_track WT_PT_BLOCK NULL 100 10 = (0, (), one_block)"
    by (simp add: wt_rec_track_def realloc_ok_def no_track_def one_block_def)
  have run: "run realloc_ok free_ok (- 1) ((), one_block) ?ops = Inr ((), block_and_active)"
    by (simp add: wt_rec_track_def wt_rec_track_ovfl_active_def WT_ASSERT_def NULL_def
        one_block_def block_and_active_def)
  have res: "wt_rec_discard_track (- 1) (logged free_ok) ([], ()) block_and_active =
     (0, ([(100, 10, 0)], ()), block_swept)"
    by (simp add: wt_rec_discard_track_def discard_scan.simps(2) logged_def free_ok_def
        empty_slot_def block_and_active_def block_swept_def)
  have ok: "\<forall>st x y. fst (free_ok st x y) = 0"
    by (simp add: free_ok_def)
  have len: "track_next one_block = 1"
    by (simp add: one_block_def)
  from block_always_swept[where realloc=realloc_ok and ?s0.0="()" and bf=free_ok and ai="- 1",
      OF h1' h2] reg obtain i where
    i: "i < track_next one_block"
    and after: "\<forall>s2 m2. run realloc_ok free_ok (- 1) ((), one_block) ?ops = Inr (s2, m2) \<longrightarrow>
        i < track_next m2 \<and> track m2 ! i = ?b \<and>
        (\<forall>rc lg s3 m3.
           wt_rec_discard_track (- 1) (logged free_ok) ([], s2) m2 = (rc, (lg, s3), m3) \<longrightarrow>
             ((track m3 ! i =
                 \<lparr>pt_type = WT_PT_EMPTY, pt_ref = NULL, pt_addr = - 1, pt_size = 0\<rparr> \<and>
               (100, 10, 0) \<in> set lg) \<or>
              (rc \<noteq> 0 \<and> track m3 ! i = track m2 ! i \<and> lg \<noteq> [] \<and>
               (\<exists>k\<le>i. freeable (track m2 ! k) \<and>
                  last lg = (pt_addr (track m2 ! k), pt_size (track m2 ! k), rc)))) \<and>
             ((\<forall>st x y. fst (free_ok st x y) = 0) \<longrightarrow>
                rc = 0 \<and>
                track m3 ! i =
                  \<lparr>pt_type = WT_PT_EMPTY, pt_ref = NULL, pt_addr = - 1, pt_size = 0\<rparr> \<and>
                (100, 10, 0) \<in> set lg))"
    by auto
  from i len have i0: "i = 0" by simp
  from after[rule_format, OF run] i0
  have kept: "track block_and_active ! 0 = ?b"
    and sweep: "\<forall>rc lg s3 m3.
           wt_rec_discard_track (- 1) (logged free_ok) ([], ()) block_and_active =
             (rc, (lg, s3), m3) \<longrightarrow>
             ((\<forall>st x y. fst (free_ok st x y) = 0) \<longrightarrow>
                rc = 0 \<and>
                track m3 ! 0 =
                  \<lparr>pt_type = WT_PT_EMPTY, pt_ref = NULL, pt_addr = - 1, pt_size = 0\<rparr> \<and>
                (100, 10, 0) \<in> set lg)"
    by simp_all
  from sweep[THEN spec, THEN spec, THEN spec, THEN spec, THEN mp, OF res, THEN mp, OF ok]
  have swept: "track block_swept ! 0 =
      \<lparr>pt_type = WT_PT_EMPTY, pt_ref = NULL, pt_addr = - 1, pt_size = 0\<rparr>"
    and called: "(100, 10, 0) \<in> set [(100 :: u32, 10 :: u32, 0 :: int)]"
    by simp_all
  have nomatch: "\<forall>op\<in>set ?quiet. \<exists>r'. op = Rec_Track_Ovfl_Active r' \<and>
      (r' = NULL \<or> (\<forall>t\<in>set (track one_block). pt_ref t \<noteq> r'))"
    by (simp add: one_block_def NULL_def)
  from block_always_swept[where realloc=realloc_ok and ?s0.0="()" and bf=free_ok and ai="- 1",
      OF h1' h2'] reg nomatch
  have quiet: "run realloc_ok free_ok (- 1) ((), one_block) ?quiet = Inr ((), one_block)"
    by auto
  from h1 h2 reg run res ok kept swept called quiet show ?thesis
    by (intro conjI)
qed

subsection \<open>The dedup invariant over runs\<close>

lemma ovfl_norm_reset:
  "map ovfl_norm (in_use (ovfl_reset_scan ts)) = map ovfl_norm (in_use ts)"
  by (induction ts) (auto simp: in_use_def ovfl_norm_def)

lemma ovfl_norm_active:
  "pt_type t = WT_PT_OVFL_DISCARD \<Longrightarrow>
   map ovfl_norm (in_use (pre @ t\<lparr>pt_type := WT_PT_OVFL\<rparr> # post)) =
   map ovfl_norm (in_use (pre @ t # post))"
  by (simp add: in_use_def ovfl_norm_def)

lemma in_use_append: "in_use (xs @ ys) = in_use xs @ in_use ys"
  by (simp add: in_use_def)

lemma in_use_resolved:
  "in_use (map (resolved ai) ts) = filter (\<lambda>t. \<not> freeable t) (in_use ts)"
  by (induction ts) (auto simp: in_use_def resolved_def empty_slot_def freeable_def)

lemma distinct_in_use_resolved:
  assumes "distinct (map f (in_use ts))"
  shows "distinct (map f (in_use (map (resolved ai) (take k ts) @ drop k ts)))"
proof -
  have "in_use ts = in_use (take k ts) @ in_use (drop k ts)"
    by (metis append_take_drop_id in_use_append)
  with assms have d: "distinct (map f (in_use (take k ts) @ in_use (drop k ts)))" by simp
  have "in_use (map (resolved ai) (take k ts) @ drop k ts) =
      filter (\<lambda>t. \<not> freeable t) (in_use (take k ts)) @ in_use (drop k ts)"
    by (simp add: in_use_append in_use_resolved)
  with d show ?thesis
    by (auto simp: distinct_map_filter)
qed

text \<open>A resolve only takes slots out of use, so it keeps them distinct under any view.\<close>

lemma discard_track_distinct:
  assumes "wt_rec_discard_track ai bf s m = (rc, s', m')"
    and "distinct (map f (in_use (track m)))"
  shows "distinct (map f (in_use (track m')))"
proof -
  from assms(1) obtain ts' where
    scan: "discard_scan ai bf s (track m) = (rc, s', ts')" and m': "m' = m\<lparr>track := ts'\<rparr>"
    by (auto simp: wt_rec_discard_track_def split: prod.splits)
  from discard_scan_shape[OF scan] obtain k where
    "ts' = map (resolved ai) (take k (track m)) @ drop k (track m)" by blast
  with distinct_in_use_resolved[OF assms(2), of ai k] m' show ?thesis by simp
qed

text \<open>A slot equal to a new tuple up to the overflow state is the tuple or its twin.\<close>

lemma ovfl_norm_eq:
  assumes "ovfl_norm t = ovfl_norm \<lparr>pt_type = ty, pt_ref = r, pt_addr = a, pt_size = sz\<rparr>"
    and "t \<in> set ts"
    and "\<not> track_dup ts ty r a sz"
  shows "twin_tracked ts ty r a sz"
proof -
  from assms(2,3) have ne: "t \<noteq> \<lparr>pt_type = ty, pt_ref = r, pt_addr = a, pt_size = sz\<rparr>"
    by (auto simp: track_dup_iff)
  from assms(1) ne have
    "(ty = WT_PT_OVFL \<and>
        t = \<lparr>pt_type = WT_PT_OVFL_DISCARD, pt_ref = r, pt_addr = a, pt_size = sz\<rparr>) \<or>
     (ty = WT_PT_OVFL_DISCARD \<and>
        t = \<lparr>pt_type = WT_PT_OVFL, pt_ref = r, pt_addr = a, pt_size = sz\<rparr>)"
    by (cases t) (auto simp: ovfl_norm_def split: if_splits)
  with assms(2) show ?thesis
    by (auto simp: track_dup_iff)
qed

lemma wt_rec_track_I1_ovfl:
  assumes "wt_rec_track realloc s m ty r a sz = (rc, s', m')"
    and "\<not> twin_tracked (track m) ty r a sz"
    and "I1_ovfl (track m)"
  shows "I1_ovfl (track m')"
proof -
  let ?e = "\<lparr>pt_type = ty, pt_ref = r, pt_addr = a, pt_size = sz\<rparr>"
  from wt_rec_track_cases[OF assms(1)]
  consider "m' = m" | "?e \<notin> set (track m)" "track m' = track m @ [?e]" by blast
  then show ?thesis
  proof cases
    case 1
    with assms(3) show ?thesis by simp
  next
    case 2
    have "ovfl_norm ?e \<notin> set (map ovfl_norm (in_use (track m)))"
    proof
      assume "ovfl_norm ?e \<in> set (map ovfl_norm (in_use (track m)))"
      then obtain t where t: "t \<in> set (track m)" "ovfl_norm t = ovfl_norm ?e"
        by (auto simp: in_use_def)
      from 2(1) have "\<not> track_dup (track m) ty r a sz" by (simp add: track_dup_iff)
      from ovfl_norm_eq[OF t(2) t(1) this] assms(2) show False by simp
    qed
    with assms(3) 2(2) show ?thesis
      by (simp add: I1_ovfl_def in_use_def)
  qed
qed

lemma step_I1_ovfl:
  assumes "step realloc bf ai (s, m) op = Inr (s', m')"
    and "twin_free_op (track m) op"
    and "I1_ovfl (track m)"
  shows "I1_ovfl (track m')"
proof (cases op)
  case (Rec_Track ty r a sz)
  with assms(1) obtain rc where "wt_rec_track realloc s m ty r a sz = (rc, s', m')"
    by (auto split: prod.splits)
  from wt_rec_track_I1_ovfl[OF this _ assms(3)] assms(2) Rec_Track show ?thesis by simp
next
  case Rec_Track_Ovfl_Reset
  with assms(1,3) show ?thesis
    by (auto simp: wt_rec_track_ovfl_reset_def I1_ovfl_def ovfl_norm_reset)
next
  case (Rec_Track_Ovfl_Active r)
  with assms(1) obtain rc a sz where
    "wt_rec_track_ovfl_active m r 0 0 = Inr (rc, m', a, sz)"
    by (auto split: sum.splits prod.splits)
  from wt_rec_track_ovfl_active_cases[OF this] assms(3) show ?thesis
    by (auto simp: I1_ovfl_def ovfl_norm_active)
next
  case Rec_Discard_Track
  with assms(1) obtain rc where "wt_rec_discard_track ai bf s m = (rc, s', m')"
    by (auto split: prod.splits)
  from discard_track_distinct[OF this, of ovfl_norm] assms(3) show ?thesis
    by (simp add: I1_ovfl_def)
qed

lemma run_I1_ovfl:
  assumes "run realloc bf ai (s, m) ops = Inr (s', m')"
    and "twin_free realloc bf ai (s, m) ops"
    and "I1_ovfl (track m)"
  shows "I1_ovfl (track m')"
  using assms
proof (induction ops arbitrary: s m)
  case Nil
  then show ?case by simp
next
  case (Cons op ops)
  from Cons.prems(1) obtain s1 m1 where
    st: "step realloc bf ai (s, m) op = Inr (s1, m1)"
    and rest: "run realloc bf ai (s1, m1) ops = Inr (s', m')"
    by (auto split: sum.splits)
  from Cons.prems(2) st have op: "twin_free_op (track m) op"
    and ops: "twin_free realloc bf ai (s1, m1) ops"
    by simp_all
  from Cons.IH[OF rest ops step_I1_ovfl[OF st op Cons.prems(3)]] show ?case .
qed

lemma I1_ovfl_in_use: "I1_ovfl ts \<Longrightarrow> I1_in_use ts"
  by (simp add: I1_ovfl_def I1_in_use_def distinct_map)

text \<open>
  Claim C7, as stated, fails: three runs from the empty list end in a list with two
  identical slots. After two Block registrations and a resolve, both slots are the same
  Empty slot. After the registration of one overflow tuple in both states, a reset makes
  the two slots the same OverflowDiscarded slot, and a reactivation makes them the same
  OverflowActive slot; these two lists break I1 among the slots in use as well.
\<close>

theorem I1_broken_by_resolve_reset_reactivate:
  "run realloc_ok free_ok (- 1) ((), no_track)
     [Rec_Track WT_PT_BLOCK NULL 1 10, Rec_Track WT_PT_BLOCK NULL 2 10, Rec_Discard_Track] =
     Inr ((), \<lparr>track = [empty_slot (- 1), empty_slot (- 1)], track_entries = 20\<rparr>) \<and>
   \<not> I1 [empty_slot (- 1), empty_slot (- 1)] \<and>
   run realloc_ok free_ok (- 1) ((), no_track)
     [Rec_Track WT_PT_OVFL 7 100 10, Rec_Track WT_PT_OVFL_DISCARD 7 100 10,
      Rec_Track_Ovfl_Reset] =
     Inr ((), \<lparr>track =
        [\<lparr>pt_type = WT_PT_OVFL_DISCARD, pt_ref = 7, pt_addr = 100, pt_size = 10\<rparr>,
         \<lparr>pt_type = WT_PT_OVFL_DISCARD, pt_ref = 7, pt_addr = 100, pt_size = 10\<rparr>],
        track_entries = 20\<rparr>) \<and>
   \<not> I1 [\<lparr>pt_type = WT_PT_OVFL_DISCARD, pt_ref = 7, pt_addr = 100, pt_size = 10\<rparr>,
         \<lparr>pt_type = WT_PT_OVFL_DISCARD, pt_ref = 7, pt_addr = 100, pt_size = 10\<rparr>] \<and>
   \<not> I1_in_use [\<lparr>pt_type = WT_PT_OVFL_DISCARD, pt_ref = 7, pt_addr = 100, pt_size = 10\<rparr>,
         \<lparr>pt_type = WT_PT_OVFL_DISCARD, pt_ref = 7, pt_addr = 100, pt_size = 10\<rparr>] \<and>
   run realloc_ok free_ok (- 1) ((), no_track)
     [Rec_Track WT_PT_OVFL_DISCARD 7 100 10, Rec_Track WT_PT_OVFL 7 100 10,
      Rec_Track_Ovfl_Active 7] =
     Inr ((), \<lparr>track =
        [\<lparr>pt_type = WT_PT_OVFL, pt_ref = 7, pt_addr = 100, pt_size = 10\<rparr>,
         \<lparr>pt_type = WT_PT_OVFL, pt_ref = 7, pt_addr = 100, pt_size = 10\<rparr>],
        track_entries = 20\<rparr>) \<and>
   \<not> I1 [\<lparr>pt_type = WT_PT_OVFL, pt_ref = 7, pt_addr = 100, pt_size = 10\<rparr>,
         \<lparr>pt_type = WT_PT_OVFL, pt_ref = 7, pt_addr = 100, pt_size = 10\<rparr>] \<and>
   \<not> I1_in_use [\<lparr>pt_type = WT_PT_OVFL, pt_ref = 7, pt_addr = 100, pt_size = 10\<rparr>,
         \<lparr>pt_type = WT_PT_OVFL, pt_ref = 7, pt_addr = 100, pt_size = 10\<rparr>]"
  by (simp add: wt_rec_track_def wt_rec_track_ovfl_active_def wt_rec_track_ovfl_reset_def
      wt_rec_discard_track_def discard_scan.simps(2) WT_ASSERT_def NULL_def realloc_ok_def
      free_ok_def no_track_def empty_slot_def I1_def I1_in_use_def in_use_def)

text \<open>
  Claim C7, amended. \<open>__wt_rec_track\<close> preserves I1 on every list, whatever it returns.
  The other three functions do not: a resolve leaves the same Empty slot in every place
  it frees, and reset and reactivation change the kind alone, so two slots that differ
  only in their overflow state become equal. Among the slots that are not Empty, a
  resolve preserves I1 on every list, and I1 holds in every state reached from the empty
  list by a sequence of the four calls in which no registration is made for a tuple
  whose twin (the same reference, addr and size in the other overflow state) is in the
  list at that moment.
\<close>

theorem I1_where_it_holds:
  "(I1 (track m) \<and> wt_rec_track realloc s m ty r a sz = (rc, s', m') \<longrightarrow> I1 (track m')) \<and>
   (I1_in_use (track m1) \<and> wt_rec_discard_track ai bf s1 m1 = (rc1, s1', m1') \<longrightarrow>
      I1_in_use (track m1')) \<and>
   (twin_free realloc bf ai (s2, no_track) ops \<and>
    run realloc bf ai (s2, no_track) ops = Inr (s2', m2') \<longrightarrow> I1_in_use (track m2'))"
proof (intro conjI impI)
  assume "I1 (track m) \<and> wt_rec_track realloc s m ty r a sz = (rc, s', m')"
  with wt_rec_track_cases[of realloc s m ty r a sz rc s' m'] show "I1 (track m')"
    by (auto simp: I1_def)
next
  assume "I1_in_use (track m1) \<and> wt_rec_discard_track ai bf s1 m1 = (rc1, s1', m1')"
  with discard_track_distinct[of ai bf s1 m1 rc1 s1' m1' "\<lambda>t. t"] show "I1_in_use (track m1')"
    by (simp add: I1_in_use_def)
next
  assume "twin_free realloc bf ai (s2, no_track) ops \<and>
    run realloc bf ai (s2, no_track) ops = Inr (s2', m2')"
  moreover have "I1_ovfl (track no_track)"
    by (simp add: I1_ovfl_def in_use_def no_track_def)
  ultimately show "I1_in_use (track m2')"
    using run_I1_ovfl[of realloc bf ai s2 no_track ops s2' m2']
    by (simp add: I1_ovfl_in_use)
qed

theorem I1_where_it_holds_witness:
  "I1 (track one_block) \<and>
   wt_rec_track realloc_ok () one_block WT_PT_OVFL 7 200 20 = (0, (), block_and_active) \<and>
   I1 (track block_and_active) \<and>
   I1_in_use (track four_kinds) \<and>
   wt_rec_discard_track (- 1) free_ok () four_kinds = (0, (), four_kinds_resolved) \<and>
   I1_in_use (track four_kinds_resolved) \<and>
   twin_free realloc_ok free_ok (- 1) ((), no_track)
     [Rec_Track WT_PT_BLOCK NULL 100 10, Rec_Track WT_PT_OVFL 7 200 20, Rec_Track_Ovfl_Reset,
      Rec_Track WT_PT_OVFL_DISCARD 7 200 20, Rec_Track_Ovfl_Active 7, Rec_Discard_Track] \<and>
   run realloc_ok free_ok (- 1) ((), no_track)
     [Rec_Track WT_PT_BLOCK NULL 100 10, Rec_Track WT_PT_OVFL 7 200 20, Rec_Track_Ovfl_Reset,
      Rec_Track WT_PT_OVFL_DISCARD 7 200 20, Rec_Track_Ovfl_Active 7, Rec_Discard_Track] =
     Inr ((), block_swept) \<and>
   I1_in_use (track block_swept)"
proof -
  let ?ops = "[Rec_Track WT_PT_BLOCK NULL 100 10, Rec_Track WT_PT_OVFL 7 200 20,
      Rec_Track_Ovfl_Reset, Rec_Track WT_PT_OVFL_DISCARD 7 200 20, Rec_Track_Ovfl_Active 7,
      Rec_Discard_Track]"
  have a1: "I1 (track one_block)"
    by (simp add: I1_def one_block_def)
  have a2: "wt_rec_track realloc_ok () one_block WT_PT_OVFL 7 200 20 =
      (0, (), block_and_active)"
    by (simp add: wt_rec_track_def realloc_ok_def one_block_def block_and_active_def)
  have b1: "I1_in_use (track four_kinds)"
    by (simp add: I1_in_use_def in_use_def four_kinds_def)
  have b2: "wt_rec_discard_track (- 1) free_ok () four_kinds = (0, (), four_kinds_resolved)"
    by (simp add: wt_rec_discard_track_def discard_scan.simps(2) free_ok_def empty_slot_def
        four_kinds_def four_kinds_resolved_def)
  have c1: "twin_free realloc_ok free_ok (- 1) ((), no_track) ?ops"
    by (simp add: wt_rec_track_def wt_rec_track_ovfl_active_def wt_rec_track_ovfl_reset_def
        wt_rec_discard_track_def discard_scan.simps(2) WT_ASSERT_def NULL_def realloc_ok_def
        free_ok_def no_track_def empty_slot_def)
  have c2: "run realloc_ok free_ok (- 1) ((), no_track) ?ops = Inr ((), block_swept)"
    by (simp add: wt_rec_track_def wt_rec_track_ovfl_active_def wt_rec_track_ovfl_reset_def
        wt_rec_discard_track_def discard_scan.simps(2) WT_ASSERT_def NULL_def realloc_ok_def
        free_ok_def no_track_def empty_slot_def block_swept_def)
  note th = I1_where_it_holds[of one_block realloc_ok "()" WT_PT_OVFL 7 200 20 0 "()"
      block_and_active four_kinds "- 1" free_ok "()" 0 "()" four_kinds_resolved
      "()" ?ops "()" block_swept]
  from th a1 a2 have a3: "I1 (track block_and_active)" by blast
  from th b1 b2 have b3: "I1_in_use (track four_kinds_resolved)" by blast
  from th c1 c2 have c3: "I1_in_use (track block_swept)" by blast
  from a1 a2 a3 b1 b2 b3 c1 c2 c3 show ?thesis by (intro conjI)
qed

end
